theory Spec2Isabelle
  imports Main "HOL-Library.Word" "HOL-Library.AList"
begin

section \<open>Data model (include/usearch_index.hpp)\<close>

text \<open>
  Machine types. \<open>size_t\<close> and \<open>key_t = uint64_t\<close> are 64-bit words, so \<open>next_key_++\<close>,
  \<open>num_elements_++\<close> and \<open>num_elements_--\<close> wrap as in the source. A \<open>float\<close> is
  represented by its 32-bit pattern: the index wrapper only copies, stores and serialises
  floats and never computes with them (all distance arithmetic happens inside the usearch
  primitive). Sizes of in-memory containers (\<open>vector.size()\<close>, \<open>queries.size()\<close>) are
  natural numbers, namely the lengths of the lists that model the containers.
\<close>

type_synonym size_t = "64 word"
type_synonym key_t = "64 word"
type_synonym float32 = "32 word"
type_synonym byte = "8 word"

datatype DistanceMetric = Euclidean | Cosine | DotProduct

record HNSWConfig =
  M :: size_t
  ef_construction :: size_t
  ef_search :: size_t
  max_elements :: size_t
  metric :: DistanceMetric

text \<open>The default member initialisers of \<open>struct HNSWConfig\<close>.\<close>

definition HNSWConfig_default :: HNSWConfig where
  "HNSWConfig_default =
     \<lparr>M = 16, ef_construction = 200, ef_search = 50, max_elements = 1000000, metric = Cosine\<rparr>"

text \<open>
  \<open>std::unordered_map\<close> is modelled as an association list with \<open>AList.update\<close> for
  \<open>m[k] = v\<close>, \<open>AList.delete\<close> for \<open>erase\<close> and \<open>map_of\<close> for \<open>find\<close>/\<open>count\<close>; the order
  of the list stands for the (unspecified) iteration order of the container. The field
  \<open>id\<close> of the source is called \<open>id_vd\<close> here (and \<open>id_res\<close> in a search result) because
  \<open>id\<close> is the identity function of HOL.
\<close>

record VectorData =
  id_vd :: string
  "values" :: "float32 list"
  metadata :: "(string \<times> string) list"

text \<open>A search result; the pointer \<open>data\<close> into the payload store is modelled by the record it points to.\<close>

record HNSWResult =
  id_res :: string
  distance :: float32
  data_res :: VectorData

section \<open>The usearch primitive\<close>

text \<open>
  \<open>unum::usearch::index_dense_gt\<close> is a third-party library whose code is not part of the
  repository. Its operations are parameters of the model: every function of the index
  wrapper takes a record \<open>U\<close> of the primitive's operations over an abstract graph state
  \<open>'g\<close>. An index object is the configuration it was made with together with the graph
  state. An operation of the primitive may raise (the \<open>string option\<close> is the message of
  the exception, \<open>None\<close> when it returns normally).
\<close>

datatype metric_kind_t = l2sq_k | ip_k | cos_k

record index_dense_config_t =
  connectivity :: size_t
  expansion_add :: size_t
  expansion_search :: size_t

record 'g index_t =
  ix_dimensions :: size_t
  ix_metric :: metric_kind_t
  ix_config :: index_dense_config_t
  ix_graph :: 'g

record filesystem =
  files :: "string \<rightharpoonup> byte list"
  can_open_for_writing :: "string \<Rightarrow> bool"

record 'g usearch =
  us_make :: "size_t \<Rightarrow> metric_kind_t \<Rightarrow> index_dense_config_t \<Rightarrow> 'g option"
  us_reserve :: "'g index_t \<Rightarrow> size_t \<Rightarrow> 'g"
  us_add :: "'g index_t \<Rightarrow> key_t \<Rightarrow> float32 list \<Rightarrow> 'g \<times> string option"
  us_remove :: "'g index_t \<Rightarrow> key_t \<Rightarrow> 'g \<times> string option"
  us_search :: "'g index_t \<Rightarrow> float32 list \<Rightarrow> size_t \<Rightarrow> string + (key_t \<times> float32) list"
  us_save :: "'g index_t \<Rightarrow> string \<Rightarrow> filesystem \<Rightarrow> filesystem \<times> string option"
  us_load :: "'g index_t \<Rightarrow> string \<Rightarrow> filesystem \<Rightarrow> 'g \<times> string option"

section \<open>The index wrapper (src/hnsw_index.cpp)\<close>

text \<open>
  The private members of \<open>class HNSWIndex\<close>. Isabelle does not accept a name that ends
  in an underscore, so \<open>dimension_\<close>, \<open>config_\<close>, \<open>num_elements_\<close>, \<open>next_key_\<close>,
  \<open>index_\<close>, \<open>data_\<close> and \<open>id_to_key_\<close> lose theirs. The mutex is not modelled: every
  operation is one atomic step on the state.
\<close>

record 'g HNSWIndex =
  dimension :: size_t
  config :: HNSWConfig
  num_elements :: size_t
  next_key :: key_t
  index :: "'g index_t"
  data :: "(key_t \<times> VectorData) list"
  id_to_key :: "(string \<times> key_t) list"

text \<open>
  Exceptions. The wrapper throws \<open>std::runtime_error\<close> with a message; an exception
  raised inside the primitive propagates unchanged. \<open>integer_division_by_zero\<close> is the
  trap of a division by zero (undefined behaviour in the source).
\<close>

datatype error = runtime_error string | primitive_error string | integer_division_by_zero

subsection \<open>Constructor\<close>

definition metric_kind_of :: "DistanceMetric \<Rightarrow> metric_kind_t" where
  "metric_kind_of m = (case m of Euclidean \<Rightarrow> l2sq_k | DotProduct \<Rightarrow> ip_k | Cosine \<Rightarrow> cos_k)"

definition HNSWIndex_ctor :: "'g usearch \<Rightarrow> size_t \<Rightarrow> HNSWConfig \<Rightarrow> error + 'g HNSWIndex" where
  "HNSWIndex_ctor U dim cfg =
     (let metric_kind = metric_kind_of (metric cfg);
          index_config = \<lparr>connectivity = M cfg, expansion_add = ef_construction cfg,
                          expansion_search = ef_search cfg\<rparr>
      in case us_make U dim metric_kind index_config of
           None \<Rightarrow> Inl (runtime_error ''Failed to create USearch index'')
         | Some g \<Rightarrow>
             (let ix = \<lparr>ix_dimensions = dim, ix_metric = metric_kind, ix_config = index_config,
                        ix_graph = g\<rparr>
              in Inr \<lparr>dimension = dim, config = cfg, num_elements = 0, next_key = 1,
                      index = ix\<lparr>ix_graph := us_reserve U ix (max_elements cfg)\<rparr>,
                      data = [], id_to_key = []\<rparr>))"

subsection \<open>Identifier generation\<close>

text \<open>
  \<open>oss << std::hex << ms << "-" << next_key_.load()\<close>. The manipulator \<open>std::hex\<close> sets the
  stream's base for every integer written afterwards, so both the microsecond count and
  the key counter are written in lower-case hexadecimal, without prefix or padding. The
  count \<open>ms\<close> is a signed 64-bit integer, which the stream writes in hexadecimal as the
  unsigned value of its bit pattern; the clock reading is therefore a 64-bit word.
\<close>

definition hex_digit :: "nat \<Rightarrow> char" where
  "hex_digit d = ''0123456789abcdef'' ! (d mod 16)"

function to_hex :: "nat \<Rightarrow> string" where
  "to_hex n = (if n < 16 then [hex_digit n] else to_hex (n div 16) @ [hex_digit (n mod 16)])"
  by pat_completeness auto
termination
  by (relation "measure (\<lambda>n. n)") auto

declare to_hex.simps [simp del]

definition generate_id :: "64 word \<Rightarrow> 'g HNSWIndex \<Rightarrow> string" where
  "generate_id now st = to_hex (unat now) @ ''-'' @ to_hex (unat (next_key st))"

subsection \<open>insert, batch\_insert, remove, get\<close>

text \<open>
  \<open>now\<close> is the reading of the system clock (microseconds since the epoch) that
  \<open>generate_id\<close> would take; it is consulted only when the id argument is empty. The
  result is the returned id or the exception, paired with the state the call leaves.
\<close>

definition HNSWIndex_insert ::
  "'g usearch \<Rightarrow> 64 word \<Rightarrow> 'g HNSWIndex \<Rightarrow> float32 list \<Rightarrow> string \<Rightarrow> (string \<times> string) list
     \<Rightarrow> (error + string) \<times> 'g HNSWIndex" where
  "HNSWIndex_insert U now st vector ident meta =
     (if length vector \<noteq> unat (dimension st)
      then (Inl (runtime_error ''Vector dimension mismatch''), st)
      else
        let actual_id = (if ident = [] then generate_id now st else ident) in
        if map_of (id_to_key st) actual_id \<noteq> None
        then (Inl (runtime_error (''ID already exists: '' @ actual_id)), st)
        else
          let key = next_key st;
              st1 = st\<lparr>next_key := next_key st + 1\<rparr>;
              (g, raised) = us_add U (index st1) key vector;
              st2 = st1\<lparr>index := (index st1)\<lparr>ix_graph := g\<rparr>\<rparr>
          in case raised of
               Some msg \<Rightarrow> (Inl (primitive_error msg), st2)
             | None \<Rightarrow>
                 (Inr actual_id,
                  st2\<lparr>data := AList.update key
                                  \<lparr>id_vd = actual_id, values = vector, metadata = meta\<rparr> (data st2),
                       id_to_key := AList.update actual_id key (id_to_key st2),
                       num_elements := num_elements st2 + 1\<rparr>))"

text \<open>
  The loop of \<open>batch_insert\<close>, with its counter. \<open>clock i\<close> is the clock reading at the
  \<open>i\<close>-th record of the batch. \<open>catch (...) {}\<close> discards the exception and keeps the
  state the failed call left.
\<close>

fun batch_insert_loop ::
  "'g usearch \<Rightarrow> (nat \<Rightarrow> 64 word) \<Rightarrow> nat \<Rightarrow> size_t \<Rightarrow> 'g HNSWIndex \<Rightarrow> VectorData list
     \<Rightarrow> size_t \<times> 'g HNSWIndex" where
  "batch_insert_loop U clock i count st [] = (count, st)"
| "batch_insert_loop U clock i count st (v # vs) =
     (case HNSWIndex_insert U (clock i) st (values v) (id_vd v) (metadata v) of
        (Inr _, st') \<Rightarrow> batch_insert_loop U clock (Suc i) (count + 1) st' vs
      | (Inl _, st') \<Rightarrow> batch_insert_loop U clock (Suc i) count st' vs)"

definition HNSWIndex_batch_insert ::
  "'g usearch \<Rightarrow> (nat \<Rightarrow> 64 word) \<Rightarrow> 'g HNSWIndex \<Rightarrow> VectorData list \<Rightarrow> size_t \<times> 'g HNSWIndex" where
  "HNSWIndex_batch_insert U clock st vectors = batch_insert_loop U clock 0 0 st vectors"

definition HNSWIndex_remove ::
  "'g usearch \<Rightarrow> 'g HNSWIndex \<Rightarrow> string \<Rightarrow> (error + bool) \<times> 'g HNSWIndex" where
  "HNSWIndex_remove U st ident =
     (case map_of (id_to_key st) ident of
        None \<Rightarrow> (Inr False, st)
      | Some key \<Rightarrow>
          let (g, raised) = us_remove U (index st) key;
              st1 = st\<lparr>index := (index st)\<lparr>ix_graph := g\<rparr>\<rparr>
          in case raised of
               Some msg \<Rightarrow> (Inl (primitive_error msg), st1)
             | None \<Rightarrow>
                 (Inr True,
                  st1\<lparr>data := AList.delete key (data st1),
                       id_to_key := AList.delete ident (id_to_key st1),
                       num_elements := num_elements st1 - 1\<rparr>))"

definition HNSWIndex_get :: "'g HNSWIndex \<Rightarrow> string \<Rightarrow> VectorData option" where
  "HNSWIndex_get st ident =
     (case map_of (id_to_key st) ident of
        None \<Rightarrow> None
      | Some key \<Rightarrow> map_of (data st) key)"

definition HNSWIndex_size :: "'g HNSWIndex \<Rightarrow> size_t" where
  "HNSWIndex_size st = num_elements st"

subsection \<open>search\<close>

text \<open>
  The loop that turns the primitive's hits into results: a hit whose key has no payload
  is skipped.
\<close>

fun collect_results :: "(key_t \<times> VectorData) list \<Rightarrow> (key_t \<times> float32) list \<Rightarrow> HNSWResult list" where
  "collect_results d [] = []"
| "collect_results d ((key, dist) # hits) =
     (case map_of d key of
        Some v \<Rightarrow> \<lparr>id_res = id_vd v, distance = dist, data_res = v\<rparr> # collect_results d hits
      | None \<Rightarrow> collect_results d hits)"

text \<open>
  The parameter \<open>ef\<close> occurs nowhere in the body of \<open>HNSWIndex::search\<close>: the primitive
  is called with the query and \<open>actual_k\<close> only.
\<close>

definition HNSWIndex_search ::
  "'g usearch \<Rightarrow> 'g HNSWIndex \<Rightarrow> float32 list \<Rightarrow> size_t \<Rightarrow> size_t \<Rightarrow> error + HNSWResult list" where
  "HNSWIndex_search U st query k ef =
     (if length query \<noteq> unat (dimension st) then Inl (runtime_error ''Query dimension mismatch'')
      else if num_elements st = 0 then Inr []
      else
        let actual_k = min k (num_elements st) in
        case us_search U (index st) query actual_k of
          Inl msg \<Rightarrow> Inl (primitive_error msg)
        | Inr results \<Rightarrow> Inr (collect_results (data st) results))"

subsection \<open>batch\_search\<close>

text \<open>
  The sequential path: the loop \<open>for (const auto& q : queries) results.push_back(search(q, k, ef))\<close>.
  An exception of \<open>search\<close> leaves the loop and the function.
\<close>

fun search_sequential ::
  "'g usearch \<Rightarrow> 'g HNSWIndex \<Rightarrow> float32 list list \<Rightarrow> size_t \<Rightarrow> size_t \<Rightarrow> HNSWResult list list
     \<Rightarrow> error + HNSWResult list list" where
  "search_sequential U st [] k ef results = Inr results"
| "search_sequential U st (q # qs) k ef results =
     (case HNSWIndex_search U st q k ef of
        Inl e \<Rightarrow> Inl e
      | Inr r \<Rightarrow> search_sequential U st qs k ef (results @ [r]))"

text \<open>
  The body of one worker task: \<open>for (i = start_idx; i < end_idx; ++i) results[i] = search(queries[i], k, ef)\<close>.
  The task is only started with \<open>end_idx \<le> queries.size()\<close>, so every index is in range.
\<close>

function search_chunk ::
  "'g usearch \<Rightarrow> 'g HNSWIndex \<Rightarrow> float32 list list \<Rightarrow> size_t \<Rightarrow> size_t \<Rightarrow> nat \<Rightarrow> nat
     \<Rightarrow> HNSWResult list list \<Rightarrow> error + HNSWResult list list" where
  "search_chunk U st queries k ef i end_idx results =
     (if i < end_idx
      then (case HNSWIndex_search U st (queries ! i) k ef of
              Inl e \<Rightarrow> Inl e
            | Inr r \<Rightarrow> search_chunk U st queries k ef (Suc i) end_idx (results[i := r]))
      else Inr results)"
  by pat_completeness auto
termination
  by (relation "measure (\<lambda>(U, st, queries, k, ef, i, end_idx, results). end_idx - i)") auto

declare search_chunk.simps [simp del]

text \<open>
  The loop that starts the tasks, and the loop that joins them. The tasks write to
  disjoint ranges of \<open>results\<close> and \<open>search\<close> does not change the index, so the tasks
  are run here one after the other in the order in which they are started. \<open>f.get()\<close>
  rethrows the exception of the first task (in that order) that failed; the results are
  then lost with the stack frame, so the model stops at that task.
\<close>

function spawn_tasks ::
  "'g usearch \<Rightarrow> 'g HNSWIndex \<Rightarrow> float32 list list \<Rightarrow> size_t \<Rightarrow> size_t \<Rightarrow> nat \<Rightarrow> nat \<Rightarrow> nat
     \<Rightarrow> HNSWResult list list \<Rightarrow> error + HNSWResult list list" where
  "spawn_tasks U st queries k ef t num_threads chunk_size results =
     (if t < num_threads
      then
        let start_idx = t * chunk_size;
            end_idx = min (start_idx + chunk_size) (length queries)
        in if start_idx \<ge> length queries then Inr results
           else (case search_chunk U st queries k ef start_idx end_idx results of
                   Inl e \<Rightarrow> Inl e
                 | Inr results' \<Rightarrow>
                     spawn_tasks U st queries k ef (Suc t) num_threads chunk_size results')
      else Inr results)"
  by pat_completeness auto
termination
  by (relation "measure (\<lambda>(U, st, queries, k, ef, t, num_threads, chunk_size, results).
                           num_threads - t)") auto

declare spawn_tasks.simps [simp del]

text \<open>
  \<open>hardware_concurrency\<close> is the value of \<open>std::thread::hardware_concurrency()\<close>, which
  may be 0; the source then divides by \<open>num_threads = 0\<close>. The index arithmetic is on
  natural numbers: the operands are bounded by the number of queries held in memory.
\<close>

definition HNSWIndex_batch_search ::
  "nat \<Rightarrow> 'g usearch \<Rightarrow> 'g HNSWIndex \<Rightarrow> float32 list list \<Rightarrow> size_t \<Rightarrow> size_t
     \<Rightarrow> error + HNSWResult list list" where
  "HNSWIndex_batch_search hardware_concurrency U st queries k ef =
     (let num_queries = length queries in
      if num_queries \<le> 100 then search_sequential U st queries k ef []
      else
        let num_threads = min (min hardware_concurrency (max 1 (num_queries div 100))) 32 in
        if num_threads = 0 then Inl integer_division_by_zero
        else
          let chunk_size = (num_queries + num_threads - 1) div num_threads
          in spawn_tasks U st queries k ef 0 num_threads chunk_size (replicate num_queries []))"

subsection \<open>save and load: the payload sidecar\<close>

text \<open>
  The sidecar is written with \<open>ofs.write(reinterpret_cast<const char*>(&x), sizeof(x))\<close>,
  that is, in the byte order of the machine; the model fixes a little-endian machine with
  8-byte \<open>size_t\<close> and 4-byte \<open>float\<close>. \<open>le_bytes n x\<close> are the \<open>n\<close> bytes of \<open>x\<close>, least
  significant first, and \<open>le_value\<close> reads them back.
\<close>

fun le_bytes :: "nat \<Rightarrow> nat \<Rightarrow> byte list" where
  "le_bytes 0 x = []"
| "le_bytes (Suc n) x = of_nat (x mod 256) # le_bytes n (x div 256)"

fun le_value :: "byte list \<Rightarrow> nat" where
  "le_value [] = 0"
| "le_value (b # bs) = unat b + 256 * le_value bs"

definition write_size :: "nat \<Rightarrow> byte list" where
  "write_size n = le_bytes 8 n"

definition write_key :: "key_t \<Rightarrow> byte list" where
  "write_key key = le_bytes 8 (unat key)"

definition write_float :: "float32 \<Rightarrow> byte list" where
  "write_float x = le_bytes 4 (unat x)"

definition string_bytes :: "string \<Rightarrow> byte list" where
  "string_bytes s = map (\<lambda>c. of_nat (of_char c)) s"

definition bytes_string :: "byte list \<Rightarrow> string" where
  "bytes_string bs = map (\<lambda>b. char_of (unat b)) bs"

definition write_string :: "string \<Rightarrow> byte list" where
  "write_string s = write_size (length s) @ string_bytes s"

definition write_meta_pair :: "string \<times> string \<Rightarrow> byte list" where
  "write_meta_pair p = write_string (fst p) @ write_string (snd p)"

text \<open>The body of the loop \<open>for (const auto& [key, data] : data_)\<close> of \<open>save\<close>.\<close>

definition write_record :: "key_t \<times> VectorData \<Rightarrow> byte list" where
  "write_record e =
     write_key (fst e)
     @ write_string (id_vd (snd e))
     @ write_size (length (values (snd e))) @ concat (map write_float (values (snd e)))
     @ write_size (length (metadata (snd e))) @ concat (map write_meta_pair (metadata (snd e)))"

definition meta_file_bytes :: "'g HNSWIndex \<Rightarrow> byte list" where
  "meta_file_bytes st =
     write_size (length (data st)) @ write_key (next_key st) @ concat (map write_record (data st))"

text \<open>
  \<open>save\<close> returns \<open>false\<close> when the primitive raises or when the sidecar cannot be opened
  for writing; it does not check the writes themselves. The result is paired with the
  file system it leaves.
\<close>

definition HNSWIndex_save ::
  "'g usearch \<Rightarrow> filesystem \<Rightarrow> 'g HNSWIndex \<Rightarrow> string \<Rightarrow> bool \<times> filesystem" where
  "HNSWIndex_save U fs st path =
     (let (fs1, raised) = us_save U (index st) path fs in
      case raised of
        Some msg \<Rightarrow> (False, fs1)
      | None \<Rightarrow>
          let meta_path = path @ ''.meta'' in
          if \<not> can_open_for_writing fs1 meta_path then (False, fs1)
          else (True, fs1\<lparr>files := (files fs1)(meta_path \<mapsto> meta_file_bytes st)\<rparr>))"

text \<open>
  Reading. A stream is the list of the bytes not yet read. \<open>load\<close> never checks the state
  of its stream: when a read runs past the end of the file, the variables it was to fill
  are indeterminate and the source continues with them. The model does not follow the
  source there: such a read yields \<open>None\<close>, and so does \<open>load\<close>.
\<close>

definition read_bytes :: "nat \<Rightarrow> byte list \<Rightarrow> (byte list \<times> byte list) option" where
  "read_bytes n s = (if length s < n then None else Some (take n s, drop n s))"

definition read_u64 :: "byte list \<Rightarrow> (nat \<times> byte list) option" where
  "read_u64 s = (case read_bytes 8 s of None \<Rightarrow> None | Some (bs, rest) \<Rightarrow> Some (le_value bs, rest))"

definition read_string :: "byte list \<Rightarrow> (string \<times> byte list) option" where
  "read_string s =
     (case read_u64 s of
        None \<Rightarrow> None
      | Some (len, s1) \<Rightarrow>
          (case read_bytes len s1 of
             None \<Rightarrow> None
           | Some (bs, rest) \<Rightarrow> Some (bytes_string bs, rest)))"

text \<open>The floats of a buffer filled by one read of \<open>vec_size * sizeof(float)\<close> bytes.\<close>

fun floats_of_bytes :: "byte list \<Rightarrow> float32 list" where
  "floats_of_bytes (a # b # c # d # rest) = of_nat (le_value [a, b, c, d]) # floats_of_bytes rest"
| "floats_of_bytes rest = []"

text \<open>The loop \<open>for (j = 0; j < meta_size; ++j)\<close> with \<open>data.metadata[k] = v\<close>.\<close>

fun read_meta ::
  "nat \<Rightarrow> byte list \<Rightarrow> (string \<times> string) list \<Rightarrow> ((string \<times> string) list \<times> byte list) option" where
  "read_meta 0 s m = Some (m, s)"
| "read_meta (Suc j) s m =
     (case read_string s of
        None \<Rightarrow> None
      | Some (k, s1) \<Rightarrow>
          (case read_string s1 of
             None \<Rightarrow> None
           | Some (v, s2) \<Rightarrow> read_meta j s2 (AList.update k v m)))"

definition read_record :: "byte list \<Rightarrow> ((key_t \<times> VectorData) \<times> byte list) option" where
  "read_record s =
     (case read_u64 s of
        None \<Rightarrow> None
      | Some (key, s1) \<Rightarrow>
     (case read_string s1 of
        None \<Rightarrow> None
      | Some (ident, s2) \<Rightarrow>
     (case read_u64 s2 of
        None \<Rightarrow> None
      | Some (vec_size, s3) \<Rightarrow>
     (case read_bytes (vec_size * 4) s3 of
        None \<Rightarrow> None
      | Some (raw, s4) \<Rightarrow>
     (case read_u64 s4 of
        None \<Rightarrow> None
      | Some (meta_size, s5) \<Rightarrow>
     (case read_meta meta_size s5 [] of
        None \<Rightarrow> None
      | Some (meta, s6) \<Rightarrow>
          Some ((of_nat key, \<lparr>id_vd = ident, values = floats_of_bytes raw, metadata = meta\<rparr>),
                s6)))))))"

text \<open>
  The loop \<open>for (i = 0; i < num; ++i)\<close> of \<open>load\<close>, on the two maps:
  \<open>id_to_key_[data.id] = key; data_[key] = std::move(data)\<close>.
\<close>

fun read_records ::
  "nat \<Rightarrow> byte list \<Rightarrow> (key_t \<times> VectorData) list \<Rightarrow> (string \<times> key_t) list
     \<Rightarrow> ((key_t \<times> VectorData) list \<times> (string \<times> key_t) list) option" where
  "read_records 0 s d m = Some (d, m)"
| "read_records (Suc i) s d m =
     (case read_record s of
        None \<Rightarrow> None
      | Some ((key, v), rest) \<Rightarrow>
          read_records i rest (AList.update key v d) (AList.update (id_vd v) key m))"

text \<open>
  \<open>load\<close> returns \<open>false\<close> when the primitive raises or the sidecar cannot be opened; by
  then the graph of the index has been replaced.
\<close>

definition HNSWIndex_load ::
  "'g usearch \<Rightarrow> filesystem \<Rightarrow> 'g HNSWIndex \<Rightarrow> string \<Rightarrow> (bool \<times> 'g HNSWIndex) option" where
  "HNSWIndex_load U fs st path =
     (let (g, raised) = us_load U (index st) path fs;
          st1 = st\<lparr>index := (index st)\<lparr>ix_graph := g\<rparr>\<rparr>
      in case raised of
           Some msg \<Rightarrow> Some (False, st1)
         | None \<Rightarrow>
             (case files fs (path @ ''.meta'') of
                None \<Rightarrow> Some (False, st1)
              | Some bytes \<Rightarrow>
                  (case read_u64 bytes of
                     None \<Rightarrow> None
                   | Some (num, s1) \<Rightarrow>
                  (case read_u64 s1 of
                     None \<Rightarrow> None
                   | Some (nk, s2) \<Rightarrow>
                  (case read_records num s2 [] [] of
                     None \<Rightarrow> None
                   | Some (d, m) \<Rightarrow>
                       Some (True, st1\<lparr>next_key := of_nat nk, data := d, id_to_key := m,
                                       num_elements := of_nat (length d)\<rparr>))))))"

section \<open>The collection manager (src/vector_storage.cpp)\<close>

text \<open>
  \<open>collections_\<close> maps a name to its index. The data-plane passthroughs look the
  collection up and forward the call; \<open>insert\<close>, \<open>batch_insert\<close>, \<open>search\<close> and
  \<open>batch_search\<close> throw when the name is unknown, \<open>remove\<close> returns \<open>false\<close> and \<open>get\<close>
  returns the null pointer (\<open>None\<close>).
\<close>

record 'g VectorStorage =
  data_dir :: string
  collections :: "string \<rightharpoonup> 'g HNSWIndex"

definition VectorStorage_insert ::
  "'g usearch \<Rightarrow> 64 word \<Rightarrow> 'g VectorStorage \<Rightarrow> string \<Rightarrow> float32 list \<Rightarrow> string
     \<Rightarrow> (string \<times> string) list \<Rightarrow> (error + string) \<times> 'g VectorStorage" where
  "VectorStorage_insert U now vs collection vector ident meta =
     (case collections vs collection of
        None \<Rightarrow> (Inl (runtime_error (''Collection not found: '' @ collection)), vs)
      | Some ix \<Rightarrow>
          (case HNSWIndex_insert U now ix vector ident meta of
             (r, ix') \<Rightarrow> (r, vs\<lparr>collections := (collections vs)(collection \<mapsto> ix')\<rparr>)))"

definition VectorStorage_batch_insert ::
  "'g usearch \<Rightarrow> (nat \<Rightarrow> 64 word) \<Rightarrow> 'g VectorStorage \<Rightarrow> string \<Rightarrow> VectorData list
     \<Rightarrow> (error + size_t) \<times> 'g VectorStorage" where
  "VectorStorage_batch_insert U clock vs collection vectors =
     (case collections vs collection of
        None \<Rightarrow> (Inl (runtime_error (''Collection not found: '' @ collection)), vs)
      | Some ix \<Rightarrow>
          (case HNSWIndex_batch_insert U clock ix vectors of
             (n, ix') \<Rightarrow> (Inr n, vs\<lparr>collections := (collections vs)(collection \<mapsto> ix')\<rparr>)))"

definition VectorStorage_remove ::
  "'g usearch \<Rightarrow> 'g VectorStorage \<Rightarrow> string \<Rightarrow> string \<Rightarrow> (error + bool) \<times> 'g VectorStorage" where
  "VectorStorage_remove U vs collection ident =
     (case collections vs collection of
        None \<Rightarrow> (Inr False, vs)
      | Some ix \<Rightarrow>
          (case HNSWIndex_remove U ix ident of
             (r, ix') \<Rightarrow> (r, vs\<lparr>collections := (collections vs)(collection \<mapsto> ix')\<rparr>)))"

definition VectorStorage_search ::
  "'g usearch \<Rightarrow> 'g VectorStorage \<Rightarrow> string \<Rightarrow> float32 list \<Rightarrow> size_t \<Rightarrow> size_t
     \<Rightarrow> error + HNSWResult list" where
  "VectorStorage_search U vs collection query k ef =
     (case collections vs collection of
        None \<Rightarrow> Inl (runtime_error (''Collection not found: '' @ collection))
      | Some ix \<Rightarrow> HNSWIndex_search U ix query k ef)"

definition VectorStorage_batch_search ::
  "nat \<Rightarrow> 'g usearch \<Rightarrow> 'g VectorStorage \<Rightarrow> string \<Rightarrow> float32 list list \<Rightarrow> size_t \<Rightarrow> size_t
     \<Rightarrow> error + HNSWResult list list" where
  "VectorStorage_batch_search hardware_concurrency U vs collection queries k ef =
     (case collections vs collection of
        None \<Rightarrow> Inl (runtime_error (''Collection not found: '' @ collection))
      | Some ix \<Rightarrow> HNSWIndex_batch_search hardware_concurrency U ix queries k ef)"

definition VectorStorage_get :: "'g VectorStorage \<Rightarrow> string \<Rightarrow> string \<Rightarrow> VectorData option" where
  "VectorStorage_get vs collection ident =
     (case collections vs collection of
        None \<Rightarrow> None
      | Some ix \<Rightarrow> HNSWIndex_get ix ident)"

section \<open>Notions used to state the properties\<close>

text \<open>
  The outcomes of the inserts that \<open>batch_insert\<close> attempts: record \<open>i\<close> is inserted
  into the state that the attempts on the records before it have left.
\<close>

fun insert_outcomes ::
  "'g usearch \<Rightarrow> (nat \<Rightarrow> 64 word) \<Rightarrow> nat \<Rightarrow> 'g HNSWIndex \<Rightarrow> VectorData list \<Rightarrow> (error + string) list" where
  "insert_outcomes U clock i st [] = []"
| "insert_outcomes U clock i st (v # vs) =
     (case HNSWIndex_insert U (clock i) st (values v) (id_vd v) (metadata v) of
        (r, st') \<Rightarrow> r # insert_outcomes U clock (Suc i) st' vs)"


text \<open>No record of the payload store and no entry of the id map carries the empty id.\<close>

definition no_empty_id :: "'g HNSWIndex \<Rightarrow> bool" where
  "no_empty_id st =
     ([] \<notin> set (map fst (id_to_key st)) \<and> [] \<notin> set (map (\<lambda>e. id_vd (snd e)) (data st)))"

text \<open>
  The identifier as the specification words it: the microsecond count in hexadecimal, a
  hyphen, the key counter in decimal.
\<close>

function to_dec :: "nat \<Rightarrow> string" where
  "to_dec n = (if n < 10 then [hex_digit n] else to_dec (n div 10) @ [hex_digit (n mod 10)])"
  by pat_completeness auto
termination
  by (relation "measure (\<lambda>n. n)") auto

declare to_dec.simps [simp del]

definition spec_generate_id :: "64 word \<Rightarrow> 'g HNSWIndex \<Rightarrow> string" where
  "spec_generate_id now st = to_hex (unat now) @ ''-'' @ to_dec (unat (next_key st))"

text \<open>
  Well-formed index states, for the round trip through the sidecar. Every size fits
  \<open>size_t\<close> (as the size of every container in memory does); the association lists
  have distinct keys (as every \<open>std::unordered_map\<close> has); the element count is the size
  of the payload store; and the id map holds exactly the pairs (id, key) of the stored
  records, no two of which share an id.
\<close>

definition string_fits :: "string \<Rightarrow> bool" where
  "string_fits s = (length s < 2 ^ 64)"

definition record_fits :: "key_t \<times> VectorData \<Rightarrow> bool" where
  "record_fits e =
     (string_fits (id_vd (snd e)) \<and> length (values (snd e)) < 2 ^ 64
      \<and> length (metadata (snd e)) < 2 ^ 64 \<and> distinct (map fst (metadata (snd e)))
      \<and> list_all (\<lambda>p. string_fits (fst p) \<and> string_fits (snd p)) (metadata (snd e)))"

definition well_formed :: "'g HNSWIndex \<Rightarrow> bool" where
  "well_formed st =
     (length (data st) < 2 ^ 64 \<and> num_elements st = of_nat (length (data st))
      \<and> distinct (map fst (data st)) \<and> distinct (map (\<lambda>e. id_vd (snd e)) (data st))
      \<and> list_all record_fits (data st)
      \<and> distinct (map fst (id_to_key st))
      \<and> set (id_to_key st) = set (map (\<lambda>e. (id_vd (snd e), fst e)) (data st)))"

text \<open>Every key of the payload store lies below the key counter.\<close>

definition keys_below :: "'g HNSWIndex \<Rightarrow> bool" where
  "keys_below st = list_all (\<lambda>e. fst e < next_key st) (data st)"

text \<open>
  The sidecar as the specification lays it out: \<open>u64 record_count\<close>,
  \<open>u64 next_internal_key_at_save\<close>, then per record \<open>u64 internal_key\<close>, the id as
  \<open>u64 id_len\<close> and \<open>id_len\<close> bytes, the values as \<open>u64 vec_len\<close> and \<open>vec_len\<close>
  little-endian float32, \<open>u64 meta_count\<close> and per pair two length-prefixed byte
  strings. A \<open>u64\<close> is written here by shifting the word, least significant byte
  first.
\<close>

definition spec_u64 :: "64 word \<Rightarrow> byte list" where
  "spec_u64 w = map (\<lambda>i. ucast (drop_bit (8 * i) w)) [0..<8]"

definition spec_f32 :: "32 word \<Rightarrow> byte list" where
  "spec_f32 w = map (\<lambda>i. ucast (drop_bit (8 * i) w)) [0..<4]"

definition spec_blob :: "string \<Rightarrow> byte list" where
  "spec_blob s = spec_u64 (of_nat (length s)) @ map of_char s"

definition spec_record :: "key_t \<times> VectorData \<Rightarrow> byte list" where
  "spec_record e =
     spec_u64 (fst e)
     @ spec_blob (id_vd (snd e))
     @ spec_u64 (of_nat (length (values (snd e)))) @ concat (map spec_f32 (values (snd e)))
     @ spec_u64 (of_nat (length (metadata (snd e))))
     @ concat (map (\<lambda>p. spec_blob (fst p) @ spec_blob (snd p)) (metadata (snd e)))"

definition spec_sidecar :: "nat \<Rightarrow> key_t \<Rightarrow> (key_t \<times> VectorData) list \<Rightarrow> byte list" where
  "spec_sidecar record_count next_internal_key records =
     spec_u64 (of_nat record_count) @ spec_u64 next_internal_key @ concat (map spec_record records)"

section \<open>A reference primitive and a sample index\<close>

text \<open>
  To run the wrapper on concrete inputs, the primitive is instantiated by an exhaustive
  search over the stored vectors: the graph state is the list of stored (key, vector)
  pairs, the distance of two vectors is the number of coordinates in which they differ,
  and a search returns the \<open>wanted\<close> nearest entries in ascending order of distance. It
  accepts every add and keeps no capacity.
\<close>

definition mismatches :: "float32 list \<Rightarrow> float32 list \<Rightarrow> float32" where
  "mismatches q v = of_nat (length (filter (\<lambda>(a, b). a \<noteq> b) (zip q v)))"

definition reference_primitive :: "((key_t \<times> float32 list) list) usearch" where
  "reference_primitive =
     \<lparr>us_make = (\<lambda>dim kind cfg. Some []),
      us_reserve = (\<lambda>ix n. ix_graph ix),
      us_add = (\<lambda>ix key v. (ix_graph ix @ [(key, v)], None)),
      us_remove = (\<lambda>ix key. (filter (\<lambda>e. fst e \<noteq> key) (ix_graph ix), None)),
      us_search = (\<lambda>ix q n. Inr (take (unat n)
                     (sort_key snd (map (\<lambda>e. (fst e, mismatches q (snd e))) (ix_graph ix))))),
      us_save = (\<lambda>ix path fs.
                   if can_open_for_writing fs path
                   then (fs\<lparr>files := (files fs)(path \<mapsto> [])\<rparr>, None)
                   else (fs, Some ''cannot open file'')),
      us_load = (\<lambda>ix path fs.
                   (ix_graph ix,
                    case files fs path of None \<Rightarrow> Some ''cannot open file'' | Some _ \<Rightarrow> None))\<rparr>"

text \<open>
  A two-dimensional index holding the records \<open>a = (1.0, 0.0)\<close> with one metadata pair
  and \<open>b = (0.0, 1.0)\<close>; \<open>0x3F800000\<close> is the bit pattern of \<open>1.0f\<close>. Lemma
  \<open>demo_index_reachable\<close> shows that it is the state after constructing an index and
  inserting the two records.
\<close>

definition demo_index :: "((key_t \<times> float32 list) list) HNSWIndex" where
  "demo_index =
     \<lparr>dimension = 2, config = HNSWConfig_default, num_elements = 2, next_key = 3,
      index = \<lparr>ix_dimensions = 2, ix_metric = cos_k,
               ix_config = \<lparr>connectivity = 16, expansion_add = 200, expansion_search = 50\<rparr>,
               ix_graph = [(1, [0x3F800000, 0]), (2, [0, 0x3F800000])]\<rparr>,
      data = [(1, \<lparr>id_vd = ''a'', values = [0x3F800000, 0], metadata = [(''type'', ''test'')]\<rparr>),
              (2, \<lparr>id_vd = ''b'', values = [0, 0x3F800000], metadata = []\<rparr>)],
      id_to_key = [(''a'', 1), (''b'', 2)]\<rparr>"

text \<open>The sample index when its key counter stands at ten.\<close>

definition tenth_index :: "((key_t \<times> float32 list) list) HNSWIndex" where
  "tenth_index = demo_index\<lparr>next_key := 10\<rparr>"


text \<open>
  A primitive that keeps a capacity: \<open>reserve\<close> sets it, and \<open>add\<close> raises once the
  number of stored entries has reached it. The graph state is the capacity together with
  the stored (key, vector) pairs.
\<close>

definition bounded_primitive :: "(size_t \<times> (key_t \<times> float32 list) list) usearch" where
  "bounded_primitive =
     \<lparr>us_make = (\<lambda>dim kind cfg. Some (0, [])),
      us_reserve = (\<lambda>ix n. (n, snd (ix_graph ix))),
      us_add = (\<lambda>ix key v.
                  if unat (fst (ix_graph ix)) \<le> length (snd (ix_graph ix))
                  then (ix_graph ix, Some ''index is full'')
                  else ((fst (ix_graph ix), snd (ix_graph ix) @ [(key, v)]), None)),
      us_remove = (\<lambda>ix key.
                  ((fst (ix_graph ix), filter (\<lambda>e. fst e \<noteq> key) (snd (ix_graph ix))), None)),
      us_search = (\<lambda>ix q n. Inr (take (unat n)
                     (sort_key snd (map (\<lambda>e. (fst e, mismatches q (snd e))) (snd (ix_graph ix)))))),
      us_save = (\<lambda>ix path fs.
                   if can_open_for_writing fs path
                   then (fs\<lparr>files := (files fs)(path \<mapsto> [])\<rparr>, None)
                   else (fs, Some ''cannot open file'')),
      us_load = (\<lambda>ix path fs.
                   (ix_graph ix,
                    case files fs path of None \<Rightarrow> Some ''cannot open file'' | Some _ \<Rightarrow> None))\<rparr>"

text \<open>
  The index constructed over that primitive with \<open>max_elements = 2\<close> after the records
  \<open>a\<close> and \<open>b\<close> have been inserted (lemma \<open>bounded_full_index_reachable\<close>): its element
  count has reached \<open>max_elements\<close>.
\<close>

definition bounded_full_index :: "(size_t \<times> (key_t \<times> float32 list) list) HNSWIndex" where
  "bounded_full_index =
     \<lparr>dimension = 2, config = HNSWConfig_default\<lparr>max_elements := 2\<rparr>, num_elements = 2,
      next_key = 3,
      index = \<lparr>ix_dimensions = 2, ix_metric = cos_k,
               ix_config = \<lparr>connectivity = 16, expansion_add = 200, expansion_search = 50\<rparr>,
               ix_graph = (2, [(1, [0x3F800000, 0]), (2, [0, 0x3F800000])])\<rparr>,
      data = [(1, \<lparr>id_vd = ''a'', values = [0x3F800000, 0], metadata = []\<rparr>),
              (2, \<lparr>id_vd = ''b'', values = [0, 0x3F800000], metadata = []\<rparr>)],
      id_to_key = [(''a'', 1), (''b'', 2)]\<rparr>"

text \<open>
  The sample index after the caller has inserted a record under the id that the next
  generated id will have when the clock reads \<open>0x5F5E100\<close>.
\<close>

definition colliding_index :: "((key_t \<times> float32 list) list) HNSWIndex" where
  "colliding_index =
     snd (HNSWIndex_insert reference_primitive 0 demo_index [0, 0] ''5f5e100-4'' [])"

text \<open>A manager with the sample index as its only collection.\<close>

definition demo_storage :: "((key_t \<times> float32 list) list) VectorStorage" where
  "demo_storage = \<lparr>data_dir = ''./data'', collections = [''docs'' \<mapsto> demo_index]\<rparr>"

text \<open>The index that the constructor returns for dimension 2 and the default configuration.\<close>

definition fresh_index :: "((key_t \<times> float32 list) list) HNSWIndex" where
  "fresh_index =
     \<lparr>dimension = 2, config = HNSWConfig_default, num_elements = 0, next_key = 1,
      index = \<lparr>ix_dimensions = 2, ix_metric = cos_k,
               ix_config = \<lparr>connectivity = 16, expansion_add = 200, expansion_search = 50\<rparr>,
               ix_graph = []\<rparr>,
      data = [], id_to_key = []\<rparr>"

text \<open>
  An empty file system in which every file can be created, and the file system after the
  sample index has been saved to \<open>/tmp/t.idx\<close> with the reference primitive (which
  writes an empty graph file).
\<close>

definition demo_fs :: filesystem where
  "demo_fs = \<lparr>files = Map.empty, can_open_for_writing = (\<lambda>p. True)\<rparr>"

definition saved_fs :: filesystem where
  "saved_fs = \<lparr>files = [''/tmp/t.idx'' \<mapsto> [], ''/tmp/t.idx.meta'' \<mapsto> meta_file_bytes demo_index],
               can_open_for_writing = (\<lambda>p. True)\<rparr>"

section \<open>Properties of search\<close>

lemma demo_index_reachable:
  "(case HNSWIndex_ctor reference_primitive 2 HNSWConfig_default of
      Inr s0 \<Rightarrow>
        (case HNSWIndex_insert reference_primitive 0 s0 [0x3F800000, 0] ''a'' [(''type'', ''test'')] of
           (r1, s1) \<Rightarrow> HNSWIndex_insert reference_primitive 0 s1 [0, 0x3F800000] ''b'' [])
    | Inl e \<Rightarrow> (Inl e, demo_index)) = (Inr ''b'', demo_index)"
  by (simp add: HNSWIndex_ctor_def HNSWIndex_insert_def reference_primitive_def demo_index_def
        HNSWConfig_default_def metric_kind_of_def Let_def)

lemma collect_results_length: "length (collect_results d hits) \<le> length hits"
  by (induction d hits rule: collect_results.induct) (auto split: option.splits)

lemma collect_results_distances:
  "map distance (collect_results d hits) = map snd (filter (\<lambda>h. map_of d (fst h) \<noteq> None) hits)"
  by (induction d hits rule: collect_results.induct) (auto split: option.splits)

lemma collect_results_sorted:
  assumes "sorted_wrt (\<lambda>a b. le (snd a) (snd b)) hits"
  shows "sorted_wrt (\<lambda>a b. le (distance a) (distance b)) (collect_results d hits)"
proof -
  have "sorted_wrt le (map snd (filter (\<lambda>h. map_of d (fst h) \<noteq> None) hits))"
    using assms by (simp add: sorted_wrt_map sorted_wrt_filter)
  then have "sorted_wrt le (map distance (collect_results d hits))"
    by (simp add: collect_results_distances)
  then show ?thesis by (simp add: sorted_wrt_map)
qed

text \<open>
  Claim C1. Let the query have the configured dimension, and let the primitive honour
  its contract at this call: it returns at most \<open>wanted\<close> hits, in an order \<open>le\<close> of
  the distances (for the library, non-decreasing float distance; \<open>le\<close> is arbitrary
  here). Then \<open>HNSWIndex::search\<close> returns a list that has at most
  \<open>min(k, size())\<close> entries and is sorted by \<open>le\<close> on the distances, and on an empty
  index it returns the empty list (without calling the primitive). The wrapper's own
  part is the clamp of \<open>k\<close>, the early return and the loop that drops hits without a
  payload, which keeps the order.
\<close>

theorem search_length_sorted:
  assumes dim: "length query = unat (dimension st)"
    and prim: "HNSWIndex_size st \<noteq> 0 \<longrightarrow>
       (\<exists>hits. us_search U (index st) query (min k (HNSWIndex_size st)) = Inr hits
          \<and> length hits \<le> unat (min k (HNSWIndex_size st))
          \<and> sorted_wrt (\<lambda>a b. le (snd a) (snd b)) hits)"
  shows "\<exists>out. HNSWIndex_search U st query k ef = Inr out
           \<and> length out \<le> unat (min k (HNSWIndex_size st))
           \<and> sorted_wrt (\<lambda>a b. le (distance a) (distance b)) out
           \<and> (HNSWIndex_size st = 0 \<longrightarrow> out = [])"
proof (cases "num_elements st = 0")
  case True
  then show ?thesis using dim by (simp add: HNSWIndex_search_def HNSWIndex_size_def)
next
  case False
  then obtain hits where h: "us_search U (index st) query (min k (num_elements st)) = Inr hits"
      "length hits \<le> unat (min k (num_elements st))"
      "sorted_wrt (\<lambda>a b. le (snd a) (snd b)) hits"
    using prim by (auto simp: HNSWIndex_size_def)
  have "HNSWIndex_search U st query k ef = Inr (collect_results (data st) hits)"
    using dim False h(1) by (simp add: HNSWIndex_search_def)
  moreover have "length (collect_results (data st) hits) \<le> unat (min k (num_elements st))"
    using collect_results_length [of "data st" hits] h(2) by linarith
  ultimately show ?thesis
    using False collect_results_sorted [OF h(3)] by (simp add: HNSWIndex_size_def)
qed

theorem search_length_sorted_witness:
  "length [0, 0x3F800000 :: float32] = unat (dimension demo_index)
   \<and> (\<exists>hits. us_search reference_primitive (index demo_index) [0, 0x3F800000]
                 (min 5 (HNSWIndex_size demo_index)) = Inr hits
          \<and> length hits \<le> unat (min 5 (HNSWIndex_size demo_index))
          \<and> sorted_wrt (\<lambda>a b. snd a \<le> snd b) hits)
   \<and> (\<exists>out. HNSWIndex_search reference_primitive demo_index [0, 0x3F800000] 5 0 = Inr out
          \<and> length out \<le> unat (min 5 (HNSWIndex_size demo_index))
          \<and> sorted_wrt (\<lambda>a b. distance a \<le> distance b) out
          \<and> (HNSWIndex_size demo_index = 0 \<longrightarrow> out = []))"
proof -
  have d: "length [0, 0x3F800000 :: float32] = unat (dimension demo_index)"
    by (simp add: demo_index_def)
  have p: "\<exists>hits. us_search reference_primitive (index demo_index) [0, 0x3F800000]
                 (min 5 (HNSWIndex_size demo_index)) = Inr hits
          \<and> length hits \<le> unat (min 5 (HNSWIndex_size demo_index))
          \<and> sorted_wrt (\<lambda>a b. snd a \<le> snd b) hits"
    by (simp add: demo_index_def reference_primitive_def HNSWIndex_size_def mismatches_def)
  from p have p': "HNSWIndex_size demo_index \<noteq> 0 \<longrightarrow>
       (\<exists>hits. us_search reference_primitive (index demo_index) [0, 0x3F800000]
                 (min 5 (HNSWIndex_size demo_index)) = Inr hits
          \<and> length hits \<le> unat (min 5 (HNSWIndex_size demo_index))
          \<and> sorted_wrt (\<lambda>a b. snd a \<le> snd b) hits)"
    by blast
  show ?thesis using d p search_length_sorted [OF d p', of 0] by blast
qed

section \<open>Properties of insert and get\<close>

text \<open>
  Claim C2, as stated, fails for the empty id: \<open>insert(v, "", metadata)\<close> succeeds and
  stores the record under a generated id, so \<open>get("")\<close> finds nothing.
\<close>

theorem insert_then_get_counterexample:
  "fst (HNSWIndex_insert reference_primitive 0x5F5E100 demo_index [0, 0] '''' []) = Inr ''5f5e100-3''
   \<and> map_of (id_to_key demo_index) '''' = None
   \<and> HNSWIndex_get (snd (HNSWIndex_insert reference_primitive 0x5F5E100 demo_index [0, 0] '''' []))
        '''' = None"
  by (simp add: HNSWIndex_insert_def HNSWIndex_get_def reference_primitive_def demo_index_def
        generate_id_def to_hex.simps hex_digit_def Let_def)

text \<open>
  Claim C2, amended. After a successful \<open>insert(v, id, metadata)\<close> that returned \<open>rid\<close>,
  \<open>get(rid)\<close> returns the record \<open>(rid, v, metadata)\<close>; the returned id is \<open>id\<close> itself
  whenever \<open>id\<close> is not empty, and the generated id otherwise.
\<close>

theorem insert_then_get:
  assumes "HNSWIndex_insert U now st v ident meta = (Inr rid, st')"
  shows "HNSWIndex_get st' rid = Some \<lparr>id_vd = rid, values = v, metadata = meta\<rparr>
         \<and> (ident \<noteq> [] \<longrightarrow> rid = ident)
         \<and> (ident = [] \<longrightarrow> rid = generate_id now st)"
  using assms
  by (auto simp: HNSWIndex_insert_def HNSWIndex_get_def Let_def AList.update_conv'
           split: if_splits prod.splits option.splits)

theorem insert_then_get_witness:
  "HNSWIndex_insert reference_primitive 0 demo_index [0, 0] ''c'' [(''k'', ''v'')]
     = (Inr ''c'', snd (HNSWIndex_insert reference_primitive 0 demo_index [0, 0] ''c'' [(''k'', ''v'')]))
   \<and> HNSWIndex_get (snd (HNSWIndex_insert reference_primitive 0 demo_index [0, 0] ''c'' [(''k'', ''v'')])) ''c''
       = Some \<lparr>id_vd = ''c'', values = [0, 0], metadata = [(''k'', ''v'')]\<rparr>"
proof -
  have h: "HNSWIndex_insert reference_primitive 0 demo_index [0, 0] ''c'' [(''k'', ''v'')]
     = (Inr ''c'', snd (HNSWIndex_insert reference_primitive 0 demo_index [0, 0] ''c'' [(''k'', ''v'')]))"
    by (simp add: HNSWIndex_insert_def reference_primitive_def demo_index_def Let_def)
  show ?thesis using h insert_then_get [OF h] by blast
qed

lemma mapped_id_nonempty:
  "no_empty_id st \<Longrightarrow> map_of (id_to_key st) ident \<noteq> None \<Longrightarrow> ident \<noteq> []"
proof -
  assume inv: "no_empty_id st" and m: "map_of (id_to_key st) ident \<noteq> None"
  from m have "ident \<in> fst ` set (id_to_key st)" by (simp add: map_of_eq_None_iff)
  moreover from inv have "[] \<notin> fst ` set (id_to_key st)" by (simp add: no_empty_id_def)
  ultimately show "ident \<noteq> []" by blast
qed

text \<open>
  Claim C3. An insert under an id that is already mapped, with a vector of the configured
  dimension, fails with the duplicate-id error and returns the index state as it was:
  records, id map, payload store, element count and key counter. The mapped id is an id
  that an insert has stored: it is not the empty string, which stands for an omitted id
  and which no index built by inserts maps (\<open>no_empty_id\<close>). An insert with a vector of
  another dimension fails with the dimension error and likewise changes nothing.
\<close>

theorem rejected_insert_changes_nothing:
  "(length v = unat (dimension st) \<and> map_of (id_to_key st) ident \<noteq> None
      \<and> (ident \<noteq> [] \<or> no_empty_id st)
      \<longrightarrow> HNSWIndex_insert U now st v ident meta
            = (Inl (runtime_error (''ID already exists: '' @ ident)), st))
   \<and> (length v \<noteq> unat (dimension st)
      \<longrightarrow> HNSWIndex_insert U now st v ident meta
            = (Inl (runtime_error ''Vector dimension mismatch''), st))"
  using mapped_id_nonempty [of st ident] by (auto simp: HNSWIndex_insert_def)

theorem rejected_insert_changes_nothing_witness:
  "length [0, 0 :: float32] = unat (dimension demo_index)
   \<and> map_of (id_to_key demo_index) ''a'' \<noteq> None \<and> no_empty_id demo_index
   \<and> HNSWIndex_insert reference_primitive 0 demo_index [0, 0] ''a'' []
        = (Inl (runtime_error ''ID already exists: a''), demo_index)
   \<and> length [0 :: float32] \<noteq> unat (dimension demo_index)
   \<and> HNSWIndex_insert reference_primitive 0 demo_index [0] ''a'' []
        = (Inl (runtime_error ''Vector dimension mismatch''), demo_index)
   \<and> HNSWIndex_get demo_index ''a''
        = Some \<lparr>id_vd = ''a'', values = [0x3F800000, 0], metadata = [(''type'', ''test'')]\<rparr>"
proof -
  have a: "length [0, 0 :: float32] = unat (dimension demo_index)
      \<and> map_of (id_to_key demo_index) ''a'' \<noteq> None \<and> no_empty_id demo_index"
    by (simp add: demo_index_def no_empty_id_def)
  have b: "length [0 :: float32] \<noteq> unat (dimension demo_index)"
    by (simp add: demo_index_def)
  have g: "HNSWIndex_get demo_index ''a''
        = Some \<lparr>id_vd = ''a'', values = [0x3F800000, 0], metadata = [(''type'', ''test'')]\<rparr>"
    by (simp add: HNSWIndex_get_def demo_index_def)
  show ?thesis
    using a b g
      rejected_insert_changes_nothing [of "[0, 0]" demo_index "''a''" reference_primitive 0 "[]"]
      rejected_insert_changes_nothing [of "[0]" demo_index "''a''" reference_primitive 0 "[]"]
    by simp
qed

subsection \<open>Capacity\<close>

text \<open>
  The wrapper keeps no capacity of its own: the constructor hands \<open>max_elements\<close> to the
  primitive's \<open>reserve\<close>, and \<open>insert\<close> hands every record to the primitive's \<open>add\<close>.
  Whether an add is refused is decided by the primitive; what the wrapper does with the
  refusal is proved here.
\<close>

lemma bounded_full_index_reachable:
  "(case HNSWIndex_ctor bounded_primitive 2 (HNSWConfig_default\<lparr>max_elements := 2\<rparr>) of
      Inr s0 \<Rightarrow>
        (case HNSWIndex_insert bounded_primitive 0 s0 [0x3F800000, 0] ''a'' [] of
           (r1, s1) \<Rightarrow> HNSWIndex_insert bounded_primitive 0 s1 [0, 0x3F800000] ''b'' [])
    | Inl e \<Rightarrow> (Inl e, bounded_full_index)) = (Inr ''b'', bounded_full_index)"
  by (simp add: HNSWIndex_ctor_def HNSWIndex_insert_def bounded_primitive_def bounded_full_index_def
        HNSWConfig_default_def metric_kind_of_def Let_def)





subsection \<open>batch\_insert\<close>





text \<open>
  A batch of four records on the sample index: a duplicate id, a vector of the wrong
  dimension, a fresh id and an omitted id. Two are inserted.
\<close>

lemma batch_insert_example:
  "insert_outcomes reference_primitive (\<lambda>i. 0x5F5E100) 0 demo_index
      [\<lparr>id_vd = ''a'', values = [0, 0], metadata = []\<rparr>,
       \<lparr>id_vd = ''c'', values = [0], metadata = []\<rparr>,
       \<lparr>id_vd = ''d'', values = [0, 0], metadata = []\<rparr>,
       \<lparr>id_vd = '''', values = [0, 0], metadata = []\<rparr>]
     = [Inl (runtime_error ''ID already exists: a''), Inl (runtime_error ''Vector dimension mismatch''),
        Inr ''d'', Inr ''5f5e100-4'']
   \<and> fst (HNSWIndex_batch_insert reference_primitive (\<lambda>i. 0x5F5E100) demo_index
      [\<lparr>id_vd = ''a'', values = [0, 0], metadata = []\<rparr>,
       \<lparr>id_vd = ''c'', values = [0], metadata = []\<rparr>,
       \<lparr>id_vd = ''d'', values = [0, 0], metadata = []\<rparr>,
       \<lparr>id_vd = '''', values = [0, 0], metadata = []\<rparr>]) = 2"
  by (simp add: HNSWIndex_batch_insert_def HNSWIndex_insert_def reference_primitive_def
        demo_index_def generate_id_def to_hex.simps hex_digit_def Let_def)

subsection \<open>Generated identifiers\<close>

text \<open>
  Claim C10, as stated, fails on the format: the key counter is written in hexadecimal,
  not in decimal. With the counter at ten the generated id ends in \<open>-a\<close>, where the
  specification's format ends in \<open>-10\<close>.
\<close>

theorem generated_id_counterexample:
  "generate_id 0x5F5E100 tenth_index = ''5f5e100-a''
   \<and> spec_generate_id 0x5F5E100 tenth_index = ''5f5e100-10''
   \<and> fst (HNSWIndex_insert reference_primitive 0x5F5E100 tenth_index [0, 0] '''' []) = Inr ''5f5e100-a''"
  by (simp add: generate_id_def spec_generate_id_def to_hex.simps to_dec.simps hex_digit_def
        tenth_index_def demo_index_def HNSWIndex_insert_def reference_primitive_def Let_def)

lemma generate_id_nonempty: "generate_id now st \<noteq> []"
  by (simp add: generate_id_def)

lemma AList_update_set: "set (AList.update k v al) \<subseteq> insert (k, v) (set al)"
  by (induction al) auto

lemma no_empty_id_insert:
  assumes "no_empty_id st"
  shows "no_empty_id (snd (HNSWIndex_insert U now st v ident meta))"
proof -
  have a: "[] \<notin> fst ` set (AList.update i k (id_to_key st))" if "i \<noteq> []" for i k
    using assms that by (simp add: AList.dom_update no_empty_id_def)
  have b: "[] \<notin> (\<lambda>e. id_vd (snd e)) ` set (AList.update k \<lparr>id_vd = i, values = v, metadata = meta\<rparr> (data st))"
    if "i \<noteq> []" for i k
    using assms that AList_update_set [of k "\<lparr>id_vd = i, values = v, metadata = meta\<rparr>" "data st"]
    by (auto simp: no_empty_id_def)
  show ?thesis
    using assms a b generate_id_nonempty [of now st]
    by (auto simp: HNSWIndex_insert_def Let_def no_empty_id_def split: prod.splits option.splits)
qed

lemma no_empty_id_remove:
  assumes "no_empty_id st"
  shows "no_empty_id (snd (HNSWIndex_remove U st ident))"
proof -
  have sub: "set (AList.delete k al) \<subseteq> set al" for k :: 'k and al :: "('k \<times> 'v) list"
    by (induction al) auto
  have "[] \<notin> fst ` set (AList.delete i (id_to_key st))"
      "[] \<notin> (\<lambda>e. id_vd (snd e)) ` set (AList.delete k (data st))" for i k
    using assms sub [of i "id_to_key st"] sub [of k "data st"]
    by (force simp: no_empty_id_def image_iff)+
  then show ?thesis
    using assms
    by (auto simp: HNSWIndex_remove_def Let_def no_empty_id_def split: prod.splits option.splits)
qed

text \<open>On an index that maps no empty id, \<open>get("")\<close> finds nothing.\<close>

lemma get_empty_id: "no_empty_id st \<Longrightarrow> HNSWIndex_get st [] = None"
proof -
  assume "no_empty_id st"
  then have "[] \<notin> fst ` set (id_to_key st)" by (simp add: no_empty_id_def)
  then have "map_of (id_to_key st) [] = None" by (simp add: map_of_eq_None_iff)
  then show ?thesis by (simp add: HNSWIndex_get_def)
qed

text \<open>
  Claim C10, amended. The generated id is the microsecond count in hexadecimal, a hyphen
  and the key counter in hexadecimal (\<open>generate_id\<close>); it is never empty. An insert with
  the empty id and a vector of the configured dimension stores the record under the
  generated id and returns it, provided that id is not already mapped and the primitive
  accepts the add; if the generated id is already mapped, the insert is rejected as a
  duplicate and changes nothing. No insert, with whatever id, stores a record or a map
  entry under the empty id.
\<close>

theorem empty_id_insert:
  "generate_id now st \<noteq> []
   \<and> (length v = unat (dimension st) \<and> map_of (id_to_key st) (generate_id now st) = None
        \<and> snd (us_add U (index st) (next_key st) v) = None
      \<longrightarrow> fst (HNSWIndex_insert U now st v [] meta) = Inr (generate_id now st)
          \<and> HNSWIndex_get (snd (HNSWIndex_insert U now st v [] meta)) (generate_id now st)
              = Some \<lparr>id_vd = generate_id now st, values = v, metadata = meta\<rparr>)
   \<and> (length v = unat (dimension st) \<and> map_of (id_to_key st) (generate_id now st) \<noteq> None
      \<longrightarrow> HNSWIndex_insert U now st v [] meta
            = (Inl (runtime_error (''ID already exists: '' @ generate_id now st)), st))
   \<and> (no_empty_id st \<longrightarrow> no_empty_id (snd (HNSWIndex_insert U now st v ident meta)))"
  using no_empty_id_insert [of st U now v ident meta] generate_id_nonempty [of now st]
  by (auto simp: HNSWIndex_insert_def HNSWIndex_get_def Let_def AList.update_conv'
      split: prod.splits option.splits)

lemma colliding_index_eq:
  "colliding_index = demo_index\<lparr>next_key := 4,
      index := (index demo_index)\<lparr>ix_graph := [(1, [0x3F800000, 0]), (2, [0, 0x3F800000]), (3, [0, 0])]\<rparr>,
      data := data demo_index @ [(3, \<lparr>id_vd = ''5f5e100-4'', values = [0, 0], metadata = []\<rparr>)],
      id_to_key := id_to_key demo_index @ [(''5f5e100-4'', 3)],
      num_elements := 3\<rparr>"
  by (simp add: colliding_index_def HNSWIndex_insert_def reference_primitive_def demo_index_def Let_def)

theorem empty_id_insert_witness:
  "length [0, 0 :: float32] = unat (dimension demo_index)
   \<and> map_of (id_to_key demo_index) (generate_id 0x5F5E100 demo_index) = None
   \<and> snd (us_add reference_primitive (index demo_index) (next_key demo_index) [0, 0]) = None
   \<and> generate_id 0x5F5E100 demo_index = ''5f5e100-3''
   \<and> fst (HNSWIndex_insert reference_primitive 0x5F5E100 demo_index [0, 0] [] []) = Inr ''5f5e100-3''
   \<and> HNSWIndex_get (snd (HNSWIndex_insert reference_primitive 0x5F5E100 demo_index [0, 0] [] [])) ''5f5e100-3''
       = Some \<lparr>id_vd = ''5f5e100-3'', values = [0, 0], metadata = []\<rparr>
   \<and> length [0, 0 :: float32] = unat (dimension colliding_index)
   \<and> map_of (id_to_key colliding_index) (generate_id 0x5F5E100 colliding_index) \<noteq> None
   \<and> HNSWIndex_insert reference_primitive 0x5F5E100 colliding_index [0, 0] [] []
       = (Inl (runtime_error ''ID already exists: 5f5e100-4''), colliding_index)
   \<and> no_empty_id demo_index
   \<and> no_empty_id (snd (HNSWIndex_insert reference_primitive 0x5F5E100 demo_index [0, 0] [] []))"
proof -
  have g: "generate_id 0x5F5E100 demo_index = ''5f5e100-3''"
    by (simp add: generate_id_def to_hex.simps hex_digit_def demo_index_def)
  have g': "generate_id 0x5F5E100 colliding_index = ''5f5e100-4''"
    by (simp add: generate_id_def to_hex.simps hex_digit_def colliding_index_eq)
  have a: "length [0, 0 :: float32] = unat (dimension demo_index)
      \<and> map_of (id_to_key demo_index) ''5f5e100-3'' = None
      \<and> snd (us_add reference_primitive (index demo_index) (next_key demo_index) [0, 0]) = None
      \<and> no_empty_id demo_index"
    by (simp add: demo_index_def reference_primitive_def no_empty_id_def)
  have b: "length [0, 0 :: float32] = unat (dimension colliding_index)
      \<and> map_of (id_to_key colliding_index) ''5f5e100-4'' \<noteq> None"
    by (simp add: colliding_index_eq) (simp add: demo_index_def)
  show ?thesis
    using a b
      empty_id_insert [of "0x5F5E100" demo_index "[0, 0]" reference_primitive "[]" "[]"]
      empty_id_insert [of "0x5F5E100" colliding_index "[0, 0]" reference_primitive "[]" "[]"]
    by (simp add: g g')
qed

section \<open>The ef parameter of search\<close>

text \<open>
  Claim C6. The override is accepted at every layer (the HTTP handler reads \<open>"ef"\<close> from
  the request and passes it to \<open>VectorStorage::search\<close>, which passes it to
  \<open>HNSWIndex::search\<close>), but the body of \<open>HNSWIndex::search\<close> never reads it. For every
  primitive, index, query and \<open>k\<close>, the outcome of a search is therefore the same for
  every two values of \<open>ef\<close>: no override, however large, can take effect. On the sample
  index, configured with \<open>ef_search = 50\<close>, the search with \<open>k = 10\<close> and the override
  \<open>ef = 200\<close> returns what the search without an override returns.
\<close>

theorem search_drops_ef_override:
  "HNSWIndex_search U st query k ef = HNSWIndex_search U st query k ef'
   \<and> ef_search (config demo_index) = 50
   \<and> HNSWIndex_search reference_primitive demo_index [0, 0x3F800000] 10 200
       = Inr [\<lparr>id_res = ''b'', distance = 0,
                data_res = \<lparr>id_vd = ''b'', values = [0, 0x3F800000], metadata = []\<rparr>\<rparr>,
              \<lparr>id_res = ''a'', distance = 2,
                data_res = \<lparr>id_vd = ''a'', values = [0x3F800000, 0],
                             metadata = [(''type'', ''test'')]\<rparr>\<rparr>]
   \<and> HNSWIndex_search reference_primitive demo_index [0, 0x3F800000] 10 0
       = HNSWIndex_search reference_primitive demo_index [0, 0x3F800000] 10 200"
  by (simp add: HNSWIndex_search_def reference_primitive_def demo_index_def mismatches_def
      HNSWConfig_default_def)

text \<open>The same holds one layer up, where the HTTP handler enters.\<close>

lemma storage_search_drops_ef:
  "VectorStorage_search U vs collection query k ef = VectorStorage_search U vs collection query k ef'"
  by (simp add: VectorStorage_search_def HNSWIndex_search_def split: option.splits)

section \<open>Unknown collections\<close>

text \<open>
  Claim C9, as stated, fails for \<open>remove\<close> and \<open>get\<close>: on a collection that does not
  exist they return \<open>false\<close> and the null pointer, exactly what they return on an existing
  collection that lacks the id.
\<close>

theorem unknown_collection_counterexample:
  "collections demo_storage ''ghost'' = None
   \<and> collections demo_storage ''docs'' = Some demo_index
   \<and> HNSWIndex_get demo_index ''x'' = None
   \<and> VectorStorage_remove reference_primitive demo_storage ''ghost'' ''x'' = (Inr False, demo_storage)
   \<and> fst (VectorStorage_remove reference_primitive demo_storage ''docs'' ''x'') = Inr False
   \<and> VectorStorage_get demo_storage ''ghost'' ''x'' = None
   \<and> VectorStorage_get demo_storage ''docs'' ''x'' = None"
  by (simp add: demo_storage_def VectorStorage_remove_def VectorStorage_get_def HNSWIndex_remove_def
        HNSWIndex_get_def demo_index_def)

text \<open>
  Claim C9, amended. For a collection name that the manager does not hold, \<open>insert\<close>,
  \<open>batch_insert\<close>, \<open>search\<close> and \<open>batch_search\<close> raise the error
  \<open>Collection not found: <name>\<close>; \<open>remove\<close> returns \<open>false\<close> and \<open>get\<close> returns the null
  pointer, as they do for a missing id. None of them changes the manager.
\<close>

theorem unknown_collection:
  assumes "collections vs name = None"
  shows "VectorStorage_insert U now vs name v ident meta
           = (Inl (runtime_error (''Collection not found: '' @ name)), vs)
       \<and> VectorStorage_batch_insert U clock vs name records
           = (Inl (runtime_error (''Collection not found: '' @ name)), vs)
       \<and> VectorStorage_search U vs name query k ef
           = Inl (runtime_error (''Collection not found: '' @ name))
       \<and> VectorStorage_batch_search hw U vs name queries k ef
           = Inl (runtime_error (''Collection not found: '' @ name))
       \<and> VectorStorage_remove U vs name ident = (Inr False, vs)
       \<and> VectorStorage_get vs name ident = None"
  using assms
  by (simp add: VectorStorage_insert_def VectorStorage_batch_insert_def VectorStorage_search_def
        VectorStorage_batch_search_def VectorStorage_remove_def VectorStorage_get_def)

theorem unknown_collection_witness:
  "collections demo_storage ''ghost'' = None
   \<and> VectorStorage_insert reference_primitive 0 demo_storage ''ghost'' [0, 0] ''x'' []
       = (Inl (runtime_error ''Collection not found: ghost''), demo_storage)
   \<and> VectorStorage_search reference_primitive demo_storage ''ghost'' [0, 0] 1 0
       = Inl (runtime_error ''Collection not found: ghost'')
   \<and> VectorStorage_remove reference_primitive demo_storage ''ghost'' ''x'' = (Inr False, demo_storage)
   \<and> VectorStorage_get demo_storage ''ghost'' ''x'' = None"
proof -
  have h: "collections demo_storage ''ghost'' = None"
    by (simp add: demo_storage_def)
  show ?thesis
    using h unknown_collection [OF h, of reference_primitive 0 "[0, 0]" "''x''" "[]" _ _ "[0, 0]" 1 0]
    by simp
qed

text \<open>
  On a collection that exists, \<open>remove\<close> and \<open>get\<close> answer a missing id with the same
  \<open>false\<close> and null pointer, and leave the manager as it was.
\<close>

lemma missing_id_in_known_collection:
  assumes "collections vs name = Some ix" and "map_of (id_to_key ix) ident = None"
  shows "VectorStorage_remove U vs name ident = (Inr False, vs)
       \<and> VectorStorage_get vs name ident = None"
proof -
  have "(collections vs)(name \<mapsto> ix) = collections vs"
    using assms(1) by (rule map_upd_triv)
  then show ?thesis
    using assms
    by (simp add: VectorStorage_remove_def VectorStorage_get_def HNSWIndex_remove_def
        HNSWIndex_get_def)
qed

section \<open>batch\_search against search\<close>

subsection \<open>The sequential path\<close>

lemma search_sequential_Inr:
  "search_sequential U st qs k ef acc = Inr rs \<Longrightarrow>
     \<exists>rs0. rs = acc @ rs0 \<and> map (\<lambda>q. HNSWIndex_search U st q k ef) qs = map Inr rs0"
proof (induction qs arbitrary: acc)
  case Nil
  then show ?case by simp
next
  case (Cons q qs)
  then obtain r where r: "HNSWIndex_search U st q k ef = Inr r"
    and rec: "search_sequential U st qs k ef (acc @ [r]) = Inr rs"
    by (cases "HNSWIndex_search U st q k ef") auto
  from Cons.IH [OF rec] obtain rs0 where
    "rs = (acc @ [r]) @ rs0" "map (\<lambda>q. HNSWIndex_search U st q k ef) qs = map Inr rs0" by blast
  then have "rs = acc @ (r # rs0)
      \<and> map (\<lambda>q. HNSWIndex_search U st q k ef) (q # qs) = map Inr (r # rs0)"
    using r by simp
  then show ?case by blast
qed

lemma search_sequential_total:
  "map (\<lambda>q. HNSWIndex_search U st q k ef) qs = map Inr rs0 \<Longrightarrow>
     search_sequential U st qs k ef acc = Inr (acc @ rs0)"
proof (induction qs arbitrary: acc rs0)
  case Nil
  then show ?case by simp
next
  case (Cons q qs)
  then obtain r rs1 where rs0: "rs0 = r # rs1" by (cases rs0) auto
  with Cons.prems have r: "HNSWIndex_search U st q k ef = Inr r"
    and m: "map (\<lambda>q. HNSWIndex_search U st q k ef) qs = map Inr rs1" by simp_all
  from Cons.IH [OF m, of "acc @ [r]"] r rs0 show ?case by simp
qed

lemma search_sequential_iff:
  "(search_sequential U st qs k ef [] = Inr rs)
     = (map (\<lambda>q. HNSWIndex_search U st q k ef) qs = map Inr rs)"
  using search_sequential_Inr [of U st qs k ef "[]" rs] search_sequential_total [of U st k ef qs rs "[]"]
  by auto

subsection \<open>The parallel path\<close>

text \<open>
  A task that returns has written the result of \<open>search(queries[j])\<close> to every slot \<open>j\<close>
  of its range and has left the other slots alone.
\<close>

lemma search_chunk_Inr:
  "search_chunk U st queries k ef i e rs = Inr rs' \<Longrightarrow> e \<le> length rs \<Longrightarrow>
     length rs' = length rs
     \<and> (\<forall>j. i \<le> j \<and> j < e \<longrightarrow> HNSWIndex_search U st (queries ! j) k ef = Inr (rs' ! j))
     \<and> (\<forall>j. j < i \<or> e \<le> j \<longrightarrow> rs' ! j = rs ! j)"
proof (induction U st queries k ef i e rs rule: search_chunk.induct)
  case (1 U st queries k ef i e rs)
  show ?case
  proof (cases "i < e")
    case False
    have "search_chunk U st queries k ef i e rs = Inr rs"
      using False by (subst search_chunk.simps) simp
    with "1.prems" False show ?thesis by auto
  next
    case True
    have unf: "search_chunk U st queries k ef i e rs
        = (case HNSWIndex_search U st (queries ! i) k ef of
             Inl e \<Rightarrow> Inl e
           | Inr r \<Rightarrow> search_chunk U st queries k ef (Suc i) e (rs[i := r]))"
      using True by (subst search_chunk.simps) simp
    obtain r where r: "HNSWIndex_search U st (queries ! i) k ef = Inr r"
      and rec: "search_chunk U st queries k ef (Suc i) e (rs[i := r]) = Inr rs'"
      using "1.prems"(1) unf by (cases "HNSWIndex_search U st (queries ! i) k ef") auto
    from "1.IH" [OF True r rec] "1.prems"(2)
    have ih: "length rs' = length rs"
      "\<forall>j. Suc i \<le> j \<and> j < e \<longrightarrow> HNSWIndex_search U st (queries ! j) k ef = Inr (rs' ! j)"
      "\<forall>j. j < Suc i \<or> e \<le> j \<longrightarrow> rs' ! j = rs[i := r] ! j"
      by simp_all
    have at_i: "rs' ! i = r" using ih(3) True "1.prems"(2) by simp
    have "HNSWIndex_search U st (queries ! j) k ef = Inr (rs' ! j)" if "i \<le> j" "j < e" for j
    proof (cases "j = i")
      case True
      then show ?thesis using r at_i by simp
    next
      case False
      then show ?thesis using that ih(2) by simp
    qed
    moreover have "rs' ! j = rs ! j" if "j < i \<or> e \<le> j" for j
      using ih(3) that True by (auto simp: nth_list_update)
    ultimately show ?thesis using ih(1) by blast
  qed
qed

lemma search_chunk_total:
  "(\<forall>j. i \<le> j \<and> j < e \<longrightarrow> (\<exists>r. HNSWIndex_search U st (queries ! j) k ef = Inr r)) \<Longrightarrow>
     \<exists>rs'. search_chunk U st queries k ef i e rs = Inr rs'"
proof (induction U st queries k ef i e rs rule: search_chunk.induct)
  case (1 U st queries k ef i e rs)
  show ?case
  proof (cases "i < e")
    case False
    then show ?thesis by (subst search_chunk.simps) simp
  next
    case True
    then obtain r where r: "HNSWIndex_search U st (queries ! i) k ef = Inr r"
      using "1.prems" by auto
    have "\<exists>rs'. search_chunk U st queries k ef (Suc i) e (rs[i := r]) = Inr rs'"
      using "1.IH" [OF True r] "1.prems" by simp
    then show ?thesis using True r by (subst search_chunk.simps) simp
  qed
qed

text \<open>
  When the tasks \<open>t, t + 1, \<dots>\<close> have run, the slots below \<open>min(num_threads * chunk_size, n)\<close>
  hold the results of their queries, provided the slots below \<open>t * chunk_size\<close> did before.
\<close>

lemma spawn_tasks_Inr:
  "spawn_tasks U st queries k ef t T c rs = Inr rs' \<Longrightarrow> length rs = length queries \<Longrightarrow> t \<le> T \<Longrightarrow>
   (\<forall>j < min (t * c) (length queries). HNSWIndex_search U st (queries ! j) k ef = Inr (rs ! j)) \<Longrightarrow>
     length rs' = length queries
     \<and> (\<forall>j < min (T * c) (length queries). HNSWIndex_search U st (queries ! j) k ef = Inr (rs' ! j))"
proof (induction U st queries k ef t T c rs rule: spawn_tasks.induct)
  case (1 U st queries k ef t T c rs)
  let ?n = "length queries"
  show ?case
  proof (cases "t < T")
    case False
    have "spawn_tasks U st queries k ef t T c rs = Inr rs"
      using False by (subst spawn_tasks.simps) simp
    with "1.prems" False show ?thesis by simp
  next
    case True
    show ?thesis
    proof (cases "t * c \<ge> ?n")
      case True
      have "spawn_tasks U st queries k ef t T c rs = Inr rs"
        using True by (subst spawn_tasks.simps) (simp add: Let_def)
      with "1.prems"(1) have "rs' = rs" by simp
      with True "1.prems" show ?thesis by simp
    next
      case False
      let ?e = "min (t * c + c) ?n"
      have unf: "spawn_tasks U st queries k ef t T c rs
          = (case search_chunk U st queries k ef (t * c) ?e rs of
               Inl e \<Rightarrow> Inl e
             | Inr rs1 \<Rightarrow> spawn_tasks U st queries k ef (Suc t) T c rs1)"
        using False True by (subst spawn_tasks.simps) (simp add: Let_def)
      obtain rs1 where
        ch: "search_chunk U st queries k ef (t * c) ?e rs = Inr rs1"
        and rec: "spawn_tasks U st queries k ef (Suc t) T c rs1 = Inr rs'"
        using "1.prems"(1) unf by (cases "search_chunk U st queries k ef (t * c) ?e rs") auto
      from search_chunk_Inr [OF ch] "1.prems"(2)
      have c1: "length rs1 = length rs"
        "\<forall>j. t * c \<le> j \<and> j < ?e \<longrightarrow> HNSWIndex_search U st (queries ! j) k ef = Inr (rs1 ! j)"
        "\<forall>j. j < t * c \<or> ?e \<le> j \<longrightarrow> rs1 ! j = rs ! j"
        by simp_all
      have filled: "\<forall>j < min (Suc t * c) ?n. HNSWIndex_search U st (queries ! j) k ef = Inr (rs1 ! j)"
      proof (intro allI impI)
        fix j assume j: "j < min (Suc t * c) ?n"
        show "HNSWIndex_search U st (queries ! j) k ef = Inr (rs1 ! j)"
        proof (cases "j < t * c")
          case True
          then show ?thesis using c1(3) "1.prems"(4) j by simp
        next
          case False
          then show ?thesis using c1(2) j by (simp add: add.commute)
        qed
      qed
      have "\<not> length queries \<le> t * c" using False by simp
      from "1.IH" [OF True refl refl this ch rec] c1(1) "1.prems"(2) True filled
      show ?thesis by simp
    qed
  qed
qed

lemma spawn_tasks_total:
  "(\<forall>j < length queries. \<exists>r. HNSWIndex_search U st (queries ! j) k ef = Inr r) \<Longrightarrow>
     \<exists>rs'. spawn_tasks U st queries k ef t T c rs = Inr rs'"
proof (induction U st queries k ef t T c rs rule: spawn_tasks.induct)
  case (1 U st queries k ef t T c rs)
  let ?n = "length queries"
  show ?case
  proof (cases "t < T \<and> \<not> t * c \<ge> ?n")
    case False
    then show ?thesis by (subst spawn_tasks.simps) (auto simp: Let_def)
  next
    case True
    let ?e = "min (t * c + c) ?n"
    have "\<forall>j. t * c \<le> j \<and> j < ?e \<longrightarrow> (\<exists>r. HNSWIndex_search U st (queries ! j) k ef = Inr r)"
      using "1.prems" by simp
    from search_chunk_total [OF this] obtain rs1 where
      ch: "search_chunk U st queries k ef (t * c) ?e rs = Inr rs1" by blast
    have t: "t < T" and n: "\<not> length queries \<le> t * c" using True by simp_all
    from "1.IH" [OF t refl refl n ch] "1.prems"
    obtain rs' where "spawn_tasks U st queries k ef (Suc t) T c rs1 = Inr rs'" by blast
    then show ?thesis using True ch by (subst spawn_tasks.simps) (simp add: Let_def)
  qed
qed

text \<open>The chunks cover all queries: \<open>num_threads * ceil(n / num_threads) \<ge> n\<close>.\<close>

lemma chunks_cover: "0 < T \<Longrightarrow> n \<le> T * ((n + T - 1) div T)" for n T :: nat
proof -
  assume T: "0 < T"
  have "n + T - 1 = T * ((n + T - 1) div T) + (n + T - 1) mod T" by simp
  moreover have "(n + T - 1) mod T < T" using T by simp
  ultimately show ?thesis by linarith
qed

lemma map_search_eq_iff:
  "(map (\<lambda>q. HNSWIndex_search U st q k ef) queries = map Inr rs)
     = (length rs = length queries
        \<and> (\<forall>j < length queries. HNSWIndex_search U st (queries ! j) k ef = Inr (rs ! j)))"
  by (auto simp: list_eq_iff_nth_eq)

text \<open>
  Claim C5. On a machine that reports at least one hardware thread, \<open>batch_search\<close>
  returns the list \<open>rs\<close> exactly when every \<open>search(Q[i], k, ef)\<close> returns \<open>rs[i]\<close>: the
  result has the length of \<open>Q\<close> and its \<open>i\<close>-th entry is the result of the \<open>i\<close>-th search,
  as lists (hence also as sets of id/score pairs), on the sequential path (at most 100
  queries) and on the parallel path alike; and it fails exactly when one of the searches
  fails.
\<close>

theorem batch_search_pointwise:
  assumes hw: "0 < hardware_concurrency"
  shows "(HNSWIndex_batch_search hardware_concurrency U st queries k ef = Inr rs)
           = (map (\<lambda>q. HNSWIndex_search U st q k ef) queries = map Inr rs)"
proof (cases "length queries \<le> 100")
  case True
  then show ?thesis
    by (simp add: HNSWIndex_batch_search_def search_sequential_iff)
next
  case False
  define n where "n = length queries"
  define T where "T = min (min hardware_concurrency (max 1 (n div 100))) 32"
  define c where "c = (n + T - 1) div T"
  have T: "0 < T" using hw by (simp add: T_def)
  have bs: "HNSWIndex_batch_search hardware_concurrency U st queries k ef
      = spawn_tasks U st queries k ef 0 T c (replicate n [])"
    unfolding HNSWIndex_batch_search_def Let_def n_def [symmetric] T_def [symmetric] c_def [symmetric]
    using False T by (simp add: n_def)
  have cover: "min (T * c) n = n" using chunks_cover [OF T, of n] by (simp add: c_def)
  have fwd: "map (\<lambda>q. HNSWIndex_search U st q k ef) queries = map Inr rs'"
    if "spawn_tasks U st queries k ef 0 T c (replicate n []) = Inr rs'" for rs'
  proof -
    have "length rs' = length queries
        \<and> (\<forall>j < min (T * c) (length queries). HNSWIndex_search U st (queries ! j) k ef = Inr (rs' ! j))"
      by (rule spawn_tasks_Inr [OF that]) (simp_all add: n_def)
    then show ?thesis using cover by (simp add: map_search_eq_iff n_def)
  qed
  show ?thesis
  proof
    assume "HNSWIndex_batch_search hardware_concurrency U st queries k ef = Inr rs"
    then show "map (\<lambda>q. HNSWIndex_search U st q k ef) queries = map Inr rs"
      using bs fwd by simp
  next
    assume m: "map (\<lambda>q. HNSWIndex_search U st q k ef) queries = map Inr rs"
    then have "\<forall>j < length queries. \<exists>r. HNSWIndex_search U st (queries ! j) k ef = Inr r"
      by (simp add: map_search_eq_iff)
    from spawn_tasks_total [OF this] obtain rs' where
      sp: "spawn_tasks U st queries k ef 0 T c (replicate n []) = Inr rs'" by blast
    from fwd [OF sp] m have "map Inr rs' = (map Inr rs :: (error + HNSWResult list) list)" by simp
    then have "rs' = rs" by (simp add: inj_map_eq_map)
    with sp bs show "HNSWIndex_batch_search hardware_concurrency U st queries k ef = Inr rs" by simp
  qed
qed

text \<open>
  The witness takes a batch of 101 queries, which the source sends down the parallel
  path, on a machine with 8 hardware threads.
\<close>

theorem batch_search_pointwise_witness:
  "(0::nat) < 8
   \<and> HNSWIndex_search reference_primitive demo_index [0, 0x3F800000] 1 0
       = Inr [\<lparr>id_res = ''b'', distance = 0,
                data_res = \<lparr>id_vd = ''b'', values = [0, 0x3F800000], metadata = []\<rparr>\<rparr>]
   \<and> HNSWIndex_batch_search 8 reference_primitive demo_index (replicate 101 [0, 0x3F800000]) 1 0
       = Inr (replicate 101
               [\<lparr>id_res = ''b'', distance = 0,
                  data_res = \<lparr>id_vd = ''b'', values = [0, 0x3F800000], metadata = []\<rparr>\<rparr>])"
proof -
  have hw: "(0::nat) < 8" by simp
  have s: "HNSWIndex_search reference_primitive demo_index [0, 0x3F800000] 1 0
       = Inr [\<lparr>id_res = ''b'', distance = 0,
                data_res = \<lparr>id_vd = ''b'', values = [0, 0x3F800000], metadata = []\<rparr>\<rparr>]"
    by (simp add: HNSWIndex_search_def reference_primitive_def demo_index_def mismatches_def)
  have m: "map (\<lambda>q. HNSWIndex_search reference_primitive demo_index q 1 0)
             (replicate 101 [0, 0x3F800000])
       = map Inr (replicate 101
               [\<lparr>id_res = ''b'', distance = 0,
                  data_res = \<lparr>id_vd = ''b'', values = [0, 0x3F800000], metadata = []\<rparr>\<rparr>])"
    by (simp only: map_replicate s)
  from m batch_search_pointwise [OF hw, of reference_primitive demo_index
      "replicate 101 [0, 0x3F800000]" 1 0]
  have "HNSWIndex_batch_search 8 reference_primitive demo_index (replicate 101 [0, 0x3F800000]) 1 0
       = Inr (replicate 101
               [\<lparr>id_res = ''b'', distance = 0,
                  data_res = \<lparr>id_vd = ''b'', values = [0, 0x3F800000], metadata = []\<rparr>\<rparr>])"
    by blast
  with hw s show ?thesis by blast
qed

text \<open>
  When the machine reports no hardware thread count (\<open>hardware_concurrency() = 0\<close>), a
  batch of more than 100 queries divides by zero.
\<close>

lemma batch_search_no_hardware_threads:
  "100 < length queries \<Longrightarrow>
     HNSWIndex_batch_search 0 U st queries k ef = Inl integer_division_by_zero"
  by (simp add: HNSWIndex_batch_search_def Let_def)

section \<open>Persistence: the sidecar round trip\<close>

subsection \<open>Reading back what was written\<close>

lemma length_le_bytes [simp]: "length (le_bytes n x) = n"
  by (induction n arbitrary: x) auto

lemma le_value_le_bytes: "le_value (le_bytes n x) = x mod 256 ^ n"
proof (induction n arbitrary: x)
  case 0
  then show ?case by simp
next
  case (Suc n)
  have "unat (of_nat (x mod 256) :: byte) = x mod 256"
    by (simp add: unat_of_nat)
  then have "le_value (le_bytes (Suc n) x) = x mod 256 + 256 * ((x div 256) mod 256 ^ n)"
    using Suc.IH [of "x div 256"] by simp
  also have "\<dots> = x mod 256 ^ Suc n"
    by (simp add: mod_mult2_eq)
  finally show ?case .
qed

lemma read_bytes_append: "length a = n \<Longrightarrow> read_bytes n (a @ rest) = Some (a, rest)"
  by (simp add: read_bytes_def)

lemma read_u64_write_size:
  "n < 2 ^ 64 \<Longrightarrow> read_u64 (write_size n @ rest) = Some (n, rest)"
  by (simp add: read_u64_def write_size_def read_bytes_append le_value_le_bytes)

lemma read_u64_write_key:
  "read_u64 (write_key key @ rest) = Some (unat key, rest)"
proof -
  have "unat key < 2 ^ 64" using unsigned_less [of key] by simp
  then show ?thesis
    by (simp add: read_u64_def write_key_def read_bytes_append le_value_le_bytes)
qed

lemma bytes_string_string_bytes: "bytes_string (string_bytes s) = s"
proof -
  have "char_of (unat (of_nat (of_char c) :: byte)) = c" for c :: char
  proof -
    have "unat (of_nat (of_char c) :: byte) = of_char c mod 256"
      by (simp add: unat_of_nat)
    then show ?thesis by simp
  qed
  then show ?thesis by (simp add: bytes_string_def string_bytes_def map_idI)
qed

lemma read_string_write_string:
  "string_fits s \<Longrightarrow> read_string (write_string s @ rest) = Some (s, rest)"
  by (simp add: read_string_def write_string_def read_u64_write_size string_fits_def
      read_bytes_append string_bytes_def bytes_string_string_bytes [unfolded string_bytes_def])

lemma floats_of_bytes_write: "floats_of_bytes (concat (map write_float vs)) = vs"
proof (induction vs)
  case Nil
  then show ?case by simp
next
  case (Cons v vs)
  have four: "(4::nat) = Suc (Suc (Suc (Suc 0)))" by simp
  obtain a b c d where w: "write_float v = [a, b, c, d]"
    unfolding write_float_def four by simp
  have "le_value (write_float v) = unat v"
  proof -
    have "unat v < 2 ^ 32" using unsigned_less [of v] by simp
    then show ?thesis by (simp add: write_float_def le_value_le_bytes)
  qed
  with w have "of_nat (le_value [a, b, c, d]) = v" by simp
  with w Cons.IH show ?case by simp
qed

lemma length_floats_bytes: "length (concat (map write_float vs)) = length vs * 4"
  by (induction vs) (auto simp: write_float_def)

lemma update_fresh: "k \<notin> fst ` set m \<Longrightarrow> AList.update k v m = m @ [(k, v)]"
  by (induction m) auto

lemma fold_update_distinct:
  "distinct (map fst (m @ ps)) \<Longrightarrow> fold (\<lambda>p. AList.update (fst p) (snd p)) ps m = m @ ps"
proof (induction ps arbitrary: m)
  case Nil
  then show ?case by simp
next
  case (Cons p ps)
  from Cons.prems have fresh: "fst p \<notin> fst ` set m" by auto
  have "AList.update (fst p) (snd p) m = m @ [p]"
    using update_fresh [OF fresh, of "snd p"] by simp
  moreover have "distinct (map fst ((m @ [p]) @ ps))" using Cons.prems by simp
  ultimately show ?case using Cons.IH [of "m @ [p]"] by simp
qed

lemma read_meta_write:
  "list_all (\<lambda>p. string_fits (fst p) \<and> string_fits (snd p)) ps \<Longrightarrow>
     read_meta (length ps) (concat (map write_meta_pair ps) @ rest) m
       = Some (fold (\<lambda>p. AList.update (fst p) (snd p)) ps m, rest)"
proof (induction ps arbitrary: m)
  case Nil
  then show ?case by simp
next
  case (Cons p ps)
  then have f: "string_fits (fst p)" "string_fits (snd p)"
    and fs: "list_all (\<lambda>p. string_fits (fst p) \<and> string_fits (snd p)) ps" by simp_all
  let ?tail = "concat (map write_meta_pair ps) @ rest"
  have s1: "read_string (write_string (fst p) @ write_string (snd p) @ ?tail)
      = Some (fst p, write_string (snd p) @ ?tail)"
    by (rule read_string_write_string [OF f(1)])
  have s2: "read_string (write_string (snd p) @ ?tail) = Some (snd p, ?tail)"
    by (rule read_string_write_string [OF f(2)])
  have "read_meta (length (p # ps)) (concat (map write_meta_pair (p # ps)) @ rest) m
      = read_meta (Suc (length ps)) (write_string (fst p) @ write_string (snd p) @ ?tail) m"
    by (simp add: write_meta_pair_def)
  also have "\<dots> = read_meta (length ps) ?tail (AList.update (fst p) (snd p) m)"
    by (simp only: read_meta.simps s1 s2 option.case prod.case)
  also have "\<dots> = Some (fold (\<lambda>p. AList.update (fst p) (snd p)) ps (AList.update (fst p) (snd p) m), rest)"
    by (rule Cons.IH [OF fs])
  finally show ?case by simp
qed

lemma read_record_write:
  assumes "record_fits e"
  shows "read_record (write_record e @ rest) = Some (e, rest)"
proof -
  obtain key d where e: "e = (key, d)" by (cases e)
  let ?tail3 = "write_size (length (metadata d)) @ concat (map write_meta_pair (metadata d)) @ rest"
  let ?tail2 = "write_size (length (values d)) @ concat (map write_float (values d)) @ ?tail3"
  let ?tail1 = "write_string (id_vd d) @ ?tail2"
  from assms e have fits: "string_fits (id_vd d)" "length (values d) < 2 ^ 64"
      "length (metadata d) < 2 ^ 64" "distinct (map fst (metadata d))"
      "list_all (\<lambda>p. string_fits (fst p) \<and> string_fits (snd p)) (metadata d)"
    by (simp_all add: record_fits_def)
  have w: "write_record e @ rest = write_key key @ ?tail1"
    by (simp add: write_record_def e)
  have s1: "read_u64 (write_key key @ ?tail1) = Some (unat key, ?tail1)"
    by (rule read_u64_write_key)
  have s2: "read_string ?tail1 = Some (id_vd d, ?tail2)"
    by (rule read_string_write_string [OF fits(1)])
  have s3: "read_u64 ?tail2 = Some (length (values d), concat (map write_float (values d)) @ ?tail3)"
    by (rule read_u64_write_size [OF fits(2)])
  have s4: "read_bytes (length (values d) * 4) (concat (map write_float (values d)) @ ?tail3)
      = Some (concat (map write_float (values d)), ?tail3)"
    by (rule read_bytes_append) (rule length_floats_bytes)
  have s5: "read_u64 ?tail3 = Some (length (metadata d), concat (map write_meta_pair (metadata d)) @ rest)"
    by (rule read_u64_write_size [OF fits(3)])
  have s6: "read_meta (length (metadata d)) (concat (map write_meta_pair (metadata d)) @ rest) []
      = Some (metadata d, rest)"
    using read_meta_write [OF fits(5), of rest "[]"] fold_update_distinct [of "[]" "metadata d"] fits(4)
    by simp
  show ?thesis
    unfolding w read_record_def
    by (simp add: s1 s2 s3 s4 s5 s6 floats_of_bytes_write e)
qed

lemma read_records_write:
  "list_all record_fits es \<Longrightarrow>
     read_records (length es) (concat (map write_record es) @ rest) d m
       = Some (fold (\<lambda>e. AList.update (fst e) (snd e)) es d,
               fold (\<lambda>e. AList.update (id_vd (snd e)) (fst e)) es m)"
proof (induction es arbitrary: d m)
  case Nil
  then show ?case by simp
next
  case (Cons e es)
  then have "record_fits e" by simp
  from read_record_write [OF this, of "concat (map write_record es) @ rest"]
  have "read_record (concat (map write_record (e # es)) @ rest)
      = Some (e, concat (map write_record es) @ rest)" by simp
  with Cons show ?case by (cases e) simp
qed

lemma fold_update_ids:
  "distinct (map (\<lambda>e. id_vd (snd e)) es) \<Longrightarrow>
     fold (\<lambda>e. AList.update (id_vd (snd e)) (fst e)) es [] = map (\<lambda>e. (id_vd (snd e), fst e)) es"
proof -
  assume d: "distinct (map (\<lambda>e. id_vd (snd e)) es)"
  have "fold (\<lambda>e. AList.update (id_vd (snd e)) (fst e)) es []
      = fold (\<lambda>p. AList.update (fst p) (snd p)) (map (\<lambda>e. (id_vd (snd e), fst e)) es) []"
    by (simp add: fold_map comp_def)
  also have "\<dots> = map (\<lambda>e. (id_vd (snd e), fst e)) es"
    using fold_update_distinct [of "[]" "map (\<lambda>e. (id_vd (snd e), fst e)) es"] d
    by (simp add: comp_def)
  finally show ?thesis .
qed

lemma load_of_sidecar:
  assumes wf: "well_formed st"
    and ld: "us_load U (index st0) path fs = (g, None)"
    and meta: "files fs (path @ ''.meta'') = Some (meta_file_bytes st)"
  shows "HNSWIndex_load U fs st0 path
     = Some (True, st0\<lparr>index := (index st0)\<lparr>ix_graph := g\<rparr>, next_key := next_key st,
                        data := data st,
                        id_to_key := map (\<lambda>e. (id_vd (snd e), fst e)) (data st),
                        num_elements := num_elements st\<rparr>)"
proof -
  let ?recs = "concat (map write_record (data st))"
  from wf have n: "length (data st) < 2 ^ 64" and fits: "list_all record_fits (data st)"
    and dk: "distinct (map fst (data st))" and di: "distinct (map (\<lambda>e. id_vd (snd e)) (data st))"
    and ne: "num_elements st = of_nat (length (data st))"
    by (simp_all add: well_formed_def)
  have r1: "read_u64 (meta_file_bytes st) = Some (length (data st), write_key (next_key st) @ ?recs)"
    unfolding meta_file_bytes_def by (rule read_u64_write_size [OF n])
  have r2: "read_u64 (write_key (next_key st) @ ?recs) = Some (unat (next_key st), ?recs)"
    by (rule read_u64_write_key)
  have r3: "read_records (length (data st)) ?recs [] []
      = Some (data st, map (\<lambda>e. (id_vd (snd e), fst e)) (data st))"
    using read_records_write [OF fits, of "[]" "[]" "[]"] fold_update_distinct [of "[]" "data st"] dk
      fold_update_ids [OF di]
    by simp
  show ?thesis
    unfolding HNSWIndex_load_def
    by (simp add: ld meta r1 r2 r3 ne)
qed

subsection \<open>The bytes written are the specified layout\<close>

lemma le_bytes_map: "le_bytes n x = map (\<lambda>i. of_nat (x div 256 ^ i)) [0..<n]"
proof (induction n arbitrary: x)
  case 0
  then show ?case by simp
next
  case (Suc n)
  have a: "(of_nat (x mod 256) :: byte) = of_nat x"
    by (simp add: word_of_nat_eq_iff take_bit_eq_mod)
  have "[0..<Suc n] = 0 # map Suc [0..<n]"
    by (simp add: upt_conv_Cons map_Suc_upt del: upt_Suc)
  then have "map (\<lambda>i. of_nat (x div 256 ^ i) :: byte) [0..<Suc n]
      = of_nat x # map (\<lambda>i. of_nat (x div 256 div 256 ^ i)) [0..<n]"
    by (simp add: comp_def div_mult2_eq del: upt_Suc)
  with Suc.IH [of "x div 256"] a show ?case by simp
qed

lemma ucast_drop_bit_byte:
  "(ucast (drop_bit (8 * i) w) :: byte) = of_nat (unat w div 256 ^ i)" for w :: "'a::len word"
proof -
  have "(ucast (drop_bit (8 * i) w) :: byte) = of_nat (unat (drop_bit (8 * i) w))"
    by simp
  also have "unat (drop_bit (8 * i) w) = unat w div 2 ^ (8 * i)"
    by (simp only: unat_drop_bit_eq) (simp add: drop_bit_eq_div)
  also have "(2::nat) ^ (8 * i) = 256 ^ i" by (simp add: power_mult)
  finally show ?thesis .
qed

lemma write_key_spec: "write_key w = spec_u64 w"
  by (simp add: write_key_def spec_u64_def le_bytes_map ucast_drop_bit_byte del: upt_Suc)

lemma write_float_spec: "write_float w = spec_f32 w"
  by (simp add: write_float_def spec_f32_def le_bytes_map ucast_drop_bit_byte del: upt_Suc)

lemma byte_of_truncated:
  assumes "i < 8"
  shows "(of_nat (unat (of_nat n :: 64 word) div 256 ^ i) :: byte) = of_nat (n div 256 ^ i)"
proof -
  have p: "(256::nat) ^ i = 2 ^ (8 * i)" by (simp add: power_mult)
  have "take_bit 8 (drop_bit (8 * i) (take_bit 64 n)) = take_bit 8 (drop_bit (8 * i) n)"
    using assms by (intro bit_eqI) (auto simp: bit_simps)
  then show ?thesis
    by (simp add: word_of_nat_eq_iff unsigned_of_nat p drop_bit_eq_div)
qed

lemma write_size_spec: "write_size n = spec_u64 (of_nat n)"
  by (simp add: write_size_def spec_u64_def le_bytes_map ucast_drop_bit_byte byte_of_truncated
      del: upt_Suc)

lemma write_string_spec: "write_string s = spec_blob s"
  by (simp add: write_string_def spec_blob_def write_size_spec string_bytes_def of_nat_of_char)

lemma write_record_spec: "write_record e = spec_record e"
proof -
  have f: "write_float = spec_f32" by (rule ext) (rule write_float_spec)
  have p: "write_meta_pair = (\<lambda>p. spec_blob (fst p) @ spec_blob (snd p))"
    by (rule ext) (simp add: write_meta_pair_def write_string_spec)
  show ?thesis
    by (simp add: write_record_def spec_record_def write_key_spec write_string_spec write_size_spec
        f p)
qed

lemma meta_file_bytes_spec:
  "meta_file_bytes st = spec_sidecar (length (data st)) (next_key st) (data st)"
proof -
  have "write_record = spec_record" by (rule ext) (rule write_record_spec)
  then show ?thesis
    by (simp add: meta_file_bytes_def spec_sidecar_def write_size_spec write_key_spec)
qed

lemma map_of_id_to_key:
  assumes "well_formed st"
  shows "map_of (map (\<lambda>e. (id_vd (snd e), fst e)) (data st)) = map_of (id_to_key st)"
proof -
  from assms have "distinct (map fst (map (\<lambda>e. (id_vd (snd e), fst e)) (data st)))"
    by (simp add: well_formed_def comp_def)
  moreover from assms have "distinct (map fst (id_to_key st))"
    and "set (map (\<lambda>e. (id_vd (snd e), fst e)) (data st)) = set (id_to_key st)"
    by (simp_all add: well_formed_def)
  ultimately show ?thesis by (simp add: map_of_inject_set)
qed

text \<open>
  Claim C4. Let the index be well formed, let the primitive save its graph without
  raising, let the sidecar be creatable, and let the primitive load without raising.
  Then \<open>save(path)\<close> returns \<open>true\<close> and leaves in \<open>path.meta\<close> exactly the specified
  layout: the u64 record count, the key counter at save time, and per record the key,
  the length-prefixed id, the length-prefixed float32 values and the length-prefixed
  metadata pairs. \<open>load(path)\<close> on any index then returns \<open>true\<close> with the saved
  payload store, an id map equal to the saved one as a map, the key counter at the
  persisted value and the saved element count, so that \<open>get\<close> answers every id as
  before the save.
\<close>

theorem save_load_round_trip:
  assumes wf: "well_formed st"
    and sv: "us_save U (index st) path fs = (fs1, None)"
    and op: "can_open_for_writing fs1 (path @ ''.meta'')"
    and fs2: "fs2 = fs1\<lparr>files := (files fs1)(path @ ''.meta'' \<mapsto> meta_file_bytes st)\<rparr>"
    and ld: "us_load U (index st0) path fs2 = (g, None)"
  shows "HNSWIndex_save U fs st path = (True, fs2)
       \<and> files fs2 (path @ ''.meta'')
           = Some (spec_sidecar (length (data st)) (next_key st) (data st))
       \<and> (\<exists>st'. HNSWIndex_load U fs2 st0 path = Some (True, st')
             \<and> data st' = data st
             \<and> map_of (id_to_key st') = map_of (id_to_key st)
             \<and> next_key st' = next_key st
             \<and> HNSWIndex_size st' = HNSWIndex_size st
             \<and> (\<forall>i. HNSWIndex_get st' i = HNSWIndex_get st i))"
proof -
  have s: "HNSWIndex_save U fs st path = (True, fs2)"
    by (simp add: HNSWIndex_save_def sv op fs2)
  have f: "files fs2 (path @ ''.meta'') = Some (meta_file_bytes st)"
    by (simp add: fs2)
  note l = load_of_sidecar [OF wf ld f]
  show ?thesis
    using s f l map_of_id_to_key [OF wf]
    by (simp add: meta_file_bytes_spec HNSWIndex_size_def HNSWIndex_get_def split: option.split)
qed

theorem save_load_round_trip_witness:
  "well_formed demo_index
   \<and> us_save reference_primitive (index demo_index) ''/tmp/t.idx'' demo_fs
        = (demo_fs\<lparr>files := [''/tmp/t.idx'' \<mapsto> []]\<rparr>, None)
   \<and> can_open_for_writing (demo_fs\<lparr>files := [''/tmp/t.idx'' \<mapsto> []]\<rparr>) (''/tmp/t.idx'' @ ''.meta'')
   \<and> us_load reference_primitive (index fresh_index) ''/tmp/t.idx'' saved_fs = ([], None)
   \<and> HNSWIndex_save reference_primitive demo_fs demo_index ''/tmp/t.idx'' = (True, saved_fs)
   \<and> (\<exists>st'. HNSWIndex_load reference_primitive saved_fs fresh_index ''/tmp/t.idx'' = Some (True, st')
          \<and> data st' = data demo_index
          \<and> next_key st' = 3
          \<and> HNSWIndex_size st' = 2
          \<and> HNSWIndex_get st' ''a''
              = Some \<lparr>id_vd = ''a'', values = [0x3F800000, 0], metadata = [(''type'', ''test'')]\<rparr>)"
proof -
  have wf: "well_formed demo_index"
    by (simp add: well_formed_def record_fits_def string_fits_def demo_index_def)
  have sv: "us_save reference_primitive (index demo_index) ''/tmp/t.idx'' demo_fs
        = (demo_fs\<lparr>files := [''/tmp/t.idx'' \<mapsto> []]\<rparr>, None)"
    by (simp add: reference_primitive_def demo_fs_def)
  have op: "can_open_for_writing (demo_fs\<lparr>files := [''/tmp/t.idx'' \<mapsto> []]\<rparr>) (''/tmp/t.idx'' @ ''.meta'')"
    by (simp add: demo_fs_def)
  have fs2: "saved_fs = (demo_fs\<lparr>files := [''/tmp/t.idx'' \<mapsto> []]\<rparr>)
      \<lparr>files := (files (demo_fs\<lparr>files := [''/tmp/t.idx'' \<mapsto> []]\<rparr>))
          (''/tmp/t.idx'' @ ''.meta'' \<mapsto> meta_file_bytes demo_index)\<rparr>"
    by (simp add: saved_fs_def demo_fs_def)
  have ld: "us_load reference_primitive (index fresh_index) ''/tmp/t.idx'' saved_fs = ([], None)"
    by (simp add: reference_primitive_def saved_fs_def fresh_index_def)
  have g: "HNSWIndex_get demo_index ''a''
      = Some \<lparr>id_vd = ''a'', values = [0x3F800000, 0], metadata = [(''type'', ''test'')]\<rparr>"
    by (simp add: HNSWIndex_get_def demo_index_def)
  have n: "next_key demo_index = 3" "HNSWIndex_size demo_index = 2"
    by (simp_all add: demo_index_def HNSWIndex_size_def)
  from save_load_round_trip [OF wf sv op fs2 ld]
  obtain st' where l: "HNSWIndex_load reference_primitive saved_fs fresh_index ''/tmp/t.idx'' = Some (True, st')"
      "data st' = data demo_index" "next_key st' = next_key demo_index"
      "HNSWIndex_size st' = HNSWIndex_size demo_index"
      "HNSWIndex_get st' ''a'' = HNSWIndex_get demo_index ''a''"
    and s: "HNSWIndex_save reference_primitive demo_fs demo_index ''/tmp/t.idx'' = (True, saved_fs)"
    by blast
  from l g n have "HNSWIndex_load reference_primitive saved_fs fresh_index ''/tmp/t.idx'' = Some (True, st')
          \<and> data st' = data demo_index
          \<and> next_key st' = 3
          \<and> HNSWIndex_size st' = 2
          \<and> HNSWIndex_get st' ''a''
              = Some \<lparr>id_vd = ''a'', values = [0x3F800000, 0], metadata = [(''type'', ''test'')]\<rparr>"
    by simp
  then have ex: "\<exists>st'. HNSWIndex_load reference_primitive saved_fs fresh_index ''/tmp/t.idx'' = Some (True, st')
          \<and> data st' = data demo_index
          \<and> next_key st' = 3
          \<and> HNSWIndex_size st' = 2
          \<and> HNSWIndex_get st' ''a''
              = Some \<lparr>id_vd = ''a'', values = [0x3F800000, 0], metadata = [(''type'', ''test'')]\<rparr>"
    by (rule exI [where x = st'])
  show ?thesis by (intro conjI) (fact wf sv op ld s ex)+
qed

section \<open>Well-formed states\<close>

text \<open>
  The states for which the round trip is proved are the states the operations produce:
  the constructor returns a well-formed index, and \<open>insert\<close> and \<open>remove\<close> keep an index
  well formed, whatever their outcome, as long as the key counter does not wrap around.
\<close>

lemma to_hex_length: "n < 16 ^ k \<Longrightarrow> 0 < k \<Longrightarrow> length (to_hex n) \<le> k"
proof (induction n arbitrary: k rule: to_hex.induct)
  case (1 n)
  show ?case
  proof (cases "n < 16")
    case True
    then show ?thesis using "1.prems" by (subst to_hex.simps) simp
  next
    case False
    then obtain k' where k: "k = Suc k'" using "1.prems" by (cases k) auto
    have "k' \<noteq> 0" using False "1.prems" k by (cases k') auto
    moreover have "n div 16 < 16 ^ k'" using "1.prems"(1) k
      by (simp add: less_mult_imp_div_less mult.commute)
    ultimately have "length (to_hex (n div 16)) \<le> k'" using "1.IH" [OF False, of k'] by simp
    then show ?thesis using False k by (subst to_hex.simps) simp
  qed
qed

lemma generate_id_fits: "string_fits (generate_id now st)"
proof -
  have a: "length (to_hex (unat now)) \<le> 16"
    using to_hex_length [of "unat now" 16] unsigned_less [of now] by simp
  have b: "length (to_hex (unat (next_key st))) \<le> 16"
    using to_hex_length [of "unat (next_key st)" 16] unsigned_less [of "next_key st"] by simp
  show ?thesis using a b by (simp add: generate_id_def string_fits_def)
qed

lemma well_formed_ctor:
  "HNSWIndex_ctor U dim cfg = Inr st \<Longrightarrow> well_formed st \<and> keys_below st \<and> no_empty_id st"
  by (auto simp: HNSWIndex_ctor_def Let_def well_formed_def keys_below_def no_empty_id_def
      split: option.splits)

lemma well_formed_append:
  assumes wf: "well_formed st" and kb: "keys_below st"
    and nw: "next_key st + 1 \<noteq> 0" and room: "Suc (length (data st)) < 2 ^ 64"
    and fits: "record_fits (next_key st, \<lparr>id_vd = aid, values = v, metadata = meta\<rparr>)"
    and fresh: "map_of (id_to_key st) aid = None"
  shows "well_formed (st\<lparr>next_key := next_key st + 1, index := ix,
            data := AList.update (next_key st) \<lparr>id_vd = aid, values = v, metadata = meta\<rparr> (data st),
            id_to_key := AList.update aid (next_key st) (id_to_key st),
            num_elements := num_elements st + 1\<rparr>)
       \<and> keys_below (st\<lparr>next_key := next_key st + 1, index := ix,
            data := AList.update (next_key st) \<lparr>id_vd = aid, values = v, metadata = meta\<rparr> (data st),
            id_to_key := AList.update aid (next_key st) (id_to_key st),
            num_elements := num_elements st + 1\<rparr>)"
proof -
  let ?rec = "\<lparr>id_vd = aid, values = v, metadata = meta\<rparr>"
  let ?key = "next_key st"
  from wf have n: "num_elements st = of_nat (length (data st))"
    and dk: "distinct (map fst (data st))"
    and di: "distinct (map (\<lambda>e. id_vd (snd e)) (data st))"
    and rf: "list_all record_fits (data st)"
    and dm: "distinct (map fst (id_to_key st))"
    and eq: "set (id_to_key st) = set (map (\<lambda>e. (id_vd (snd e), fst e)) (data st))"
    by (simp_all add: well_formed_def)
  have lt: "?key < ?key + 1"
    using nw inc_less_eq_self_iff_eq [of ?key] by (auto simp: not_le [symmetric])
  have key_fresh: "?key \<notin> fst ` set (data st)"
    using kb by (auto simp: keys_below_def list_all_iff)
  have id_fresh: "aid \<notin> fst ` set (id_to_key st)"
    using fresh by (simp add: map_of_eq_None_iff)
  have ids: "(\<lambda>e. id_vd (snd e)) ` set (data st) = fst ` set (id_to_key st)"
    unfolding eq by (force simp: image_iff)
  have d': "AList.update ?key ?rec (data st) = data st @ [(?key, ?rec)]"
    by (rule update_fresh [OF key_fresh])
  have m': "AList.update aid ?key (id_to_key st) = id_to_key st @ [(aid, ?key)]"
    by (rule update_fresh [OF id_fresh])
  have below: "list_all (\<lambda>e. fst e < ?key + 1) (data st @ [(?key, ?rec)])"
    using kb lt by (auto simp: keys_below_def list_all_iff)
  have "well_formed (st\<lparr>next_key := ?key + 1, index := ix, data := data st @ [(?key, ?rec)],
            id_to_key := id_to_key st @ [(aid, ?key)], num_elements := num_elements st + 1\<rparr>)"
    using room n dk di rf dm eq key_fresh id_fresh ids fits
    by (auto simp: well_formed_def)
  then show ?thesis using below by (simp add: d' m' keys_below_def)
qed

lemma well_formed_insert:
  assumes wf: "well_formed st" and kb: "keys_below st"
    and nw: "next_key st + 1 \<noteq> 0" and room: "Suc (length (data st)) < 2 ^ 64"
    and fits: "record_fits (0, \<lparr>id_vd = ident, values = v, metadata = meta\<rparr>)"
  shows "well_formed (snd (HNSWIndex_insert U now st v ident meta))
       \<and> keys_below (snd (HNSWIndex_insert U now st v ident meta))"
proof -
  let ?aid = "if ident = [] then generate_id now st else ident"
  have lt: "next_key st < next_key st + 1"
    using nw inc_less_eq_self_iff_eq [of "next_key st"] by (auto simp: not_le [symmetric])
  have fits': "record_fits (next_key st, \<lparr>id_vd = ?aid, values = v, metadata = meta\<rparr>)"
    using fits generate_id_fits [of now st] by (simp add: record_fits_def)
  have adv: "well_formed (st\<lparr>next_key := next_key st + 1, index := ix\<rparr>)
       \<and> keys_below (st\<lparr>next_key := next_key st + 1, index := ix\<rparr>)" for ix
    using wf kb lt by (auto simp: well_formed_def keys_below_def list_all_iff)
  show ?thesis
  proof (cases "length v \<noteq> unat (dimension st) \<or> map_of (id_to_key st) ?aid \<noteq> None")
    case True
    then show ?thesis using wf kb by (auto simp: HNSWIndex_insert_def Let_def)
  next
    case False
    then have fresh: "map_of (id_to_key st) ?aid = None" by simp
    obtain g raised where add: "us_add U (index st) (next_key st) v = (g, raised)"
      by (cases "us_add U (index st) (next_key st) v")
    show ?thesis
    proof (cases raised)
      case (Some msg)
      then show ?thesis
        using False add adv [of "(index st)\<lparr>ix_graph := g\<rparr>"]
        by (simp add: HNSWIndex_insert_def Let_def)
    next
      case None
      from well_formed_append [OF wf kb nw room fits' fresh, of "(index st)\<lparr>ix_graph := g\<rparr>"]
      show ?thesis
        using False add None by (simp add: HNSWIndex_insert_def Let_def)
    qed
  qed
qed


lemma filter_key_length:
  "distinct (map fst xs) \<Longrightarrow> e0 \<in> set xs \<Longrightarrow> length (filter (\<lambda>e. fst e = fst e0) xs) = 1"
  by (induction xs) (auto simp: filter_empty_conv image_iff)

lemma well_formed_erase:
  assumes wf: "well_formed st" and kb: "keys_below st"
    and mapped: "map_of (id_to_key st) ident = Some key"
  shows "well_formed (st\<lparr>index := ix, data := AList.delete key (data st),
            id_to_key := AList.delete ident (id_to_key st),
            num_elements := num_elements st - 1\<rparr>)
       \<and> keys_below (st\<lparr>index := ix, data := AList.delete key (data st),
            id_to_key := AList.delete ident (id_to_key st),
            num_elements := num_elements st - 1\<rparr>)"
proof -
  let ?f = "\<lambda>e. (id_vd (snd e), fst e)"
  from wf have len: "length (data st) < 2 ^ 64"
    and n: "num_elements st = of_nat (length (data st))"
    and dk: "distinct (map fst (data st))"
    and di: "distinct (map (\<lambda>e. id_vd (snd e)) (data st))"
    and rf: "list_all record_fits (data st)"
    and dm: "distinct (map fst (id_to_key st))"
    and eq: "set (id_to_key st) = set (map ?f (data st))"
    by (simp_all add: well_formed_def)
  from mapped have "(ident, key) \<in> set (id_to_key st)" by (rule map_of_SomeD)
  then obtain e0 where e0: "e0 \<in> set (data st)" "id_vd (snd e0) = ident" "fst e0 = key"
    unfolding eq by auto
  have inj_k: "inj_on fst (set (data st))" using dk by (simp add: distinct_map)
  have inj_i: "inj_on (\<lambda>e. id_vd (snd e)) (set (data st))" using di by (simp add: distinct_map)
  have same: "(fst e = key) = (id_vd (snd e) = ident)" if "e \<in> set (data st)" for e
  proof
    assume "fst e = key"
    then have "e = e0" using inj_k that e0 by (auto dest: inj_onD)
    then show "id_vd (snd e) = ident" using e0 by simp
  next
    assume "id_vd (snd e) = ident"
    then have "e = e0" using inj_i that e0(1,2) by (auto dest!: inj_onD)
    then show "fst e = key" using e0 by simp
  qed
  have dd: "AList.delete key (data st) = filter (\<lambda>e. fst e \<noteq> key) (data st)"
    by (simp add: AList.delete_eq case_prod_unfold eq_commute)
  have dmm: "AList.delete ident (id_to_key st) = filter (\<lambda>p. fst p \<noteq> ident) (id_to_key st)"
    by (simp add: AList.delete_eq case_prod_unfold eq_commute)
  have one: "length (filter (\<lambda>e. fst e = key) (data st)) = 1"
    using filter_key_length [OF dk e0(1)] e0(3) by simp
  have "length (data st) = length (filter (\<lambda>e. fst e = key) (data st))
      + length (filter (\<lambda>e. \<not> fst e = key) (data st))"
    by (rule sum_length_filter_compl [symmetric])
  with one have len': "Suc (length (filter (\<lambda>e. fst e \<noteq> key) (data st))) = length (data st)"
    by simp
  have num: "num_elements st - 1 = of_nat (length (filter (\<lambda>e. fst e \<noteq> key) (data st)))"
    by (simp add: n len' [symmetric])
  have seteq: "set (filter (\<lambda>p. fst p \<noteq> ident) (id_to_key st))
      = set (map ?f (filter (\<lambda>e. fst e \<noteq> key) (data st)))"
    using same by (force simp: eq image_iff)
  have "well_formed (st\<lparr>index := ix, data := filter (\<lambda>e. fst e \<noteq> key) (data st),
            id_to_key := filter (\<lambda>p. fst p \<noteq> ident) (id_to_key st),
            num_elements := num_elements st - 1\<rparr>)"
    unfolding well_formed_def
    using len len' num dk di rf dm seteq
    by (simp add: distinct_map_filter list_all_iff)
  moreover have "keys_below (st\<lparr>index := ix, data := filter (\<lambda>e. fst e \<noteq> key) (data st),
            id_to_key := filter (\<lambda>p. fst p \<noteq> ident) (id_to_key st),
            num_elements := num_elements st - 1\<rparr>)"
    using kb by (simp add: keys_below_def list_all_iff)
  ultimately show ?thesis by (simp add: dd dmm)
qed

lemma well_formed_remove:
  assumes wf: "well_formed st" and kb: "keys_below st"
  shows "well_formed (snd (HNSWIndex_remove U st ident))
       \<and> keys_below (snd (HNSWIndex_remove U st ident))"
proof (cases "map_of (id_to_key st) ident")
  case None
  then show ?thesis using wf kb by (simp add: HNSWIndex_remove_def)
next
  case (Some key)
  obtain g raised where rm: "us_remove U (index st) key = (g, raised)"
    by (cases "us_remove U (index st) key")
  show ?thesis
  proof (cases raised)
    case (Some msg)
    have "well_formed (st\<lparr>index := ix\<rparr>) \<and> keys_below (st\<lparr>index := ix\<rparr>)" for ix
      using wf kb by (simp add: well_formed_def keys_below_def)
    then show ?thesis
      using \<open>map_of (id_to_key st) ident = Some key\<close> rm Some
      by (simp add: HNSWIndex_remove_def Let_def)
  next
    case None
    from well_formed_erase [OF wf kb \<open>map_of (id_to_key st) ident = Some key\<close>,
        of "(index st)\<lparr>ix_graph := g\<rparr>"]
    show ?thesis
      using \<open>map_of (id_to_key st) ident = Some key\<close> rm None
      by (simp add: HNSWIndex_remove_def Let_def)
  qed
qed

end
